theory Spec2Isabelle
  imports Main "HOL-Library.AList"
begin

section \<open>Syntax nodes and documents\<close>

text \<open>
  The registry stores parsed GraphQL syntax nodes. Of a node the registry reads the
  \<open>kind\<close>, the \<open>name.value\<close> and, for object types, the \<open>fields\<close>; all the rest of
  a node (field types, arguments, descriptions) is carried along untouched and is
  kept here as one opaque \<open>detail\<close> string.
\<close>

datatype Kind =
    OPERATION_DEFINITION
  | FRAGMENT_DEFINITION
  | SCHEMA_DEFINITION
  | SCALAR_TYPE_DEFINITION
  | OBJECT_TYPE_DEFINITION
  | FIELD_DEFINITION
  | INTERFACE_TYPE_DEFINITION
  | UNION_TYPE_DEFINITION
  | ENUM_TYPE_DEFINITION
  | INPUT_OBJECT_TYPE_DEFINITION
  | DIRECTIVE_DEFINITION
  | SCHEMA_EXTENSION
  | SCALAR_TYPE_EXTENSION
  | OBJECT_TYPE_EXTENSION
  | INTERFACE_TYPE_EXTENSION
  | UNION_TYPE_EXTENSION
  | ENUM_TYPE_EXTENSION
  | INPUT_OBJECT_TYPE_EXTENSION

datatype node = Node (kind: Kind) (nameValue: string) (fields: "node list") (detail: string)

text \<open>A \<open>DocumentNode\<close> is \<open>{ kind: DOCUMENT, definitions }\<close>: its list of definitions.\<close>

type_synonym document = "node list"

definition typeDefinitionTypes :: "Kind list" where
  "typeDefinitionTypes =
     [SCALAR_TYPE_DEFINITION, OBJECT_TYPE_DEFINITION, INTERFACE_TYPE_DEFINITION,
      UNION_TYPE_DEFINITION, ENUM_TYPE_DEFINITION, INPUT_OBJECT_TYPE_DEFINITION]"

definition isTypeDefinitionNode :: "node \<Rightarrow> bool" where
  "isTypeDefinitionNode definition = List.member typeDefinitionTypes (kind definition)"

definition typeExtensionTypes :: "Kind list" where
  "typeExtensionTypes =
     [SCALAR_TYPE_EXTENSION, OBJECT_TYPE_EXTENSION, INTERFACE_TYPE_EXTENSION,
      UNION_TYPE_EXTENSION, ENUM_TYPE_EXTENSION, INPUT_OBJECT_TYPE_EXTENSION]"

definition isTypeExtensionNode :: "node \<Rightarrow> bool" where
  "isTypeExtensionNode definition = List.member typeExtensionTypes (kind definition)"

section \<open>Arrays and objects of the host language\<close>

text \<open>\<open>Array.prototype.findIndex\<close>: the index of the first match, \<open>None\<close> for \<open>-1\<close>.\<close>

fun findIndex :: "('a \<Rightarrow> bool) \<Rightarrow> 'a list \<Rightarrow> nat option" where
  "findIndex P [] = None"
| "findIndex P (x # xs) = (if P x then Some 0 else map_option Suc (findIndex P xs))"

text \<open>\<open>xs.splice(i, 1)\<close>: the array without its element at index \<open>i\<close>.\<close>

definition splice1 :: "'a list \<Rightarrow> nat \<Rightarrow> 'a list" where
  "splice1 xs i = take i xs @ drop (Suc i) xs"

text \<open>
  A plain object \<open>{ [k: string]: v }\<close> is the association list of its own properties
  in the order in which \<open>Object.keys\<close> enumerates them: the keys that are array
  indices (a decimal numeral without leading zeros, at most \<open>2^32 - 2\<close>) first, in
  ascending numeric order, then the other keys in the order of their creation.
\<close>

type_synonym 'v object = "(string \<times> 'v) list"

definition isDigit :: "char \<Rightarrow> bool" where
  "isDigit c = List.member ''0123456789'' c"

definition indexValue :: "string \<Rightarrow> nat" where
  "indexValue k = foldl (\<lambda>n c. 10 * n + (of_char c - 48)) 0 k"

definition isArrayIndex :: "string \<Rightarrow> bool" where
  "isArrayIndex k =
     (k \<noteq> [] \<and> list_all isDigit k \<and> (k = ''0'' \<or> hd k \<noteq> CHR ''0'') \<and>
      indexValue k \<le> 4294967294)"

text \<open>
  Creating or writing the own property \<open>k\<close>, as a property definition in an object
  literal and a spread do: a key that is there keeps its position, a new array index
  goes to its place among the array indices, any other new key goes last.
\<close>

definition defineOwn :: "'v object \<Rightarrow> string \<Rightarrow> 'v \<Rightarrow> 'v object" where
  "defineOwn obj k v =
     (if isArrayIndex k \<and> map_of obj k = None
      then takeWhile (\<lambda>(k', v'). isArrayIndex k' \<and> indexValue k' < indexValue k) obj
           @ [(k, v)]
           @ dropWhile (\<lambda>(k', v'). isArrayIndex k' \<and> indexValue k' < indexValue k) obj
      else AList.update k v obj)"

text \<open>
  The assignment \<open>obj[k] = v\<close>. It writes the own property \<open>k\<close>, except that for the
  key \<open>__proto__\<close> on an object that has no own property of that name it runs the
  inherited setter, which creates no own property (what it does to the prototype is
  read by nothing in the registry: the only object the registry reads inherited
  names of is \<open>remoteSchemas\<close>, which is never assigned under that key).
\<close>

definition assign :: "'v object \<Rightarrow> string \<Rightarrow> 'v \<Rightarrow> 'v object" where
  "assign obj k v = (if k = ''__proto__'' \<and> map_of obj k = None then obj else defineOwn obj k v)"

text \<open>
  \<open>Object.keys(source).forEach((k) => { target[k] = source[k] })\<close>, and the object
  literals \<open>{ ...a }\<close> and \<open>{ ...a, ...b }\<close>, which create a new object and define on
  it the own properties of \<open>a\<close> and then those of \<open>b\<close>, in their order.
\<close>

definition assignEach :: "'v object \<Rightarrow> 'v object \<Rightarrow> 'v object" where
  "assignEach target source = foldl (\<lambda>obj (k, v). assign obj k v) target source"

definition copy :: "'v object \<Rightarrow> 'v object" where
  "copy a = foldl (\<lambda>obj (k, v). defineOwn obj k v) [] a"

definition spread :: "'v object \<Rightarrow> 'v object \<Rightarrow> 'v object" where
  "spread a b = foldl (\<lambda>obj (k, v). defineOwn obj k v) (copy a) b"

text \<open>
  The names every plain object inherits from \<open>Object.prototype\<close>; reading one of them
  from an object that has no own property of that name yields the inherited member,
  which is truthy.
\<close>

definition objectPrototypeNames :: "string list" where
  "objectPrototypeNames =
     [''constructor'', ''__defineGetter__'', ''__defineSetter__'', ''hasOwnProperty'',
      ''__lookupGetter__'', ''__lookupSetter__'', ''isPrototypeOf'',
      ''propertyIsEnumerable'', ''toString'', ''valueOf'', ''__proto__'',
      ''toLocaleString'']"

text \<open>Values stored in resolver maps: a function or another opaque value, or a nested object.\<close>

datatype jsValue = Opaque string | Obj "(string \<times> jsValue) list"

section \<open>Artifacts built by the external collaborators\<close>

text \<open>
  \<open>makeExecutableSchema\<close>, \<open>wrapSchema\<close> and \<open>stitchSchemas\<close> are external. An
  artifact is the term that records which collaborator built it from which arguments.
\<close>

datatype transform =
    RenameTypes
  | RenameRootTypes
  | RenameRootFields
  | RenameObjectFields
  | RenameInterfaceFields
  | RenameInputObjectFields
  | Custom string

datatype schema =
    Foreign string
  | MakeExecutableSchema (typeDefs: document) (resolvers: "jsValue object option")
  | WrapSchema schema string "transform list"
  | StitchSchemas (subschemas: "schema list") (stitchTypeDefs: document)
      (stitchResolvers: "jsValue object option")
  | Directed string schema

datatype error = Raised string

datatype 'a outcome = Rejected error | Resolved 'a

section \<open>Plugins\<close>

text \<open>
  Every hook of a plugin is optional (\<open>None\<close> when the plugin does not implement it).
  A hook that returns a contribution is a function of its arguments that returns
  \<open>None\<close> for a nullish result. The notification hooks return nothing, so only their
  presence is recorded. \<open>validateSchema\<close> returns the message it raises, if it raises.
  \<open>registry\<close> tells whether the back-reference to the registry has been set.
\<close>

type_synonym 'a globalHook = "(document \<Rightarrow> document \<Rightarrow> 'a option) option"
type_synonym 'a nodeHook = "(node \<Rightarrow> document \<Rightarrow> document \<Rightarrow> 'a option) option"

record plugin =
  name :: string
  registry :: bool
  clearHook :: bool
  setInitialSchema :: bool
  schemaUpdated :: bool
  setFinalSchema :: bool
  validateSchema :: "string globalHook"
  addPrePropertiesToTypeDefinition :: "node nodeHook"
  addPostPropertiesToTypeDefinition :: "node nodeHook"
  addDirectiveDefinitions :: "node list globalHook"
  addDirectiveResolvers :: "(schema \<Rightarrow> schema) object globalHook"
  addTypeDefinitions :: "node list globalHook"
  addQueryDefinitions :: "node list globalHook"
  addMutationDefinitions :: "node list globalHook"
  addSubscriptionDefinitions :: "node list globalHook"
  addTypeResolvers :: "jsValue object globalHook"
  addQueryResolvers :: "jsValue object globalHook"
  addMutationResolvers :: "jsValue object globalHook"
  addSubscriptionResolvers :: "jsValue object globalHook"
  addTypeDefinitionsForTypeDefinition :: "node list nodeHook"
  addQueryDefinitionsForTypeDefinition :: "node list nodeHook"
  addMutationDefinitionsForTypeDefinition :: "node list nodeHook"
  addSubscriptionDefinitionsForTypeDefinition :: "node list nodeHook"
  addTypeResolversForTypeDefinition :: "jsValue object nodeHook"
  addQueryResolversForTypeDefinition :: "jsValue object nodeHook"
  addMutationResolversForTypeDefinition :: "jsValue object nodeHook"
  addSubscriptionResolversForTypeDefinition :: "jsValue object nodeHook"
  addTypeDefinitionExtensionsForTypeDefinition :: "node list nodeHook"
  addQueryDefinitionExtensionsForTypeDefinition :: "node list nodeHook"
  addMutationDefinitionExtensionsForTypeDefinition :: "node list nodeHook"
  addSubscriptionDefinitionExtensionsForTypeDefinition :: "node list nodeHook"
  addTypeResolverExtensionsForTypeDefinition :: "jsValue object nodeHook"
  addQueryResolverExtensionsForTypeDefinition :: "jsValue object nodeHook"
  addMutationResolverExtensionsForTypeDefinition :: "jsValue object nodeHook"
  addSubscriptionResolverExtensionsForTypeDefinition :: "jsValue object nodeHook"

text \<open>One entry of the history of hook invocations: which hook of which plugin ran on what.\<close>

datatype hook =
    Clear
  | SetInitialSchema
  | SchemaUpdated
  | SetFinalSchema
  | ValidateSchema
  | AddPrePropertiesToTypeDefinition
  | AddPostPropertiesToTypeDefinition
  | AddDirectiveDefinitions
  | AddDirectiveResolvers
  | AddTypeDefinitions
  | AddQueryDefinitions
  | AddMutationDefinitions
  | AddSubscriptionDefinitions
  | AddTypeResolvers
  | AddQueryResolvers
  | AddMutationResolvers
  | AddSubscriptionResolvers
  | AddTypeDefinitionsForTypeDefinition
  | AddQueryDefinitionsForTypeDefinition
  | AddMutationDefinitionsForTypeDefinition
  | AddSubscriptionDefinitionsForTypeDefinition
  | AddTypeResolversForTypeDefinition
  | AddQueryResolversForTypeDefinition
  | AddMutationResolversForTypeDefinition
  | AddSubscriptionResolversForTypeDefinition
  | AddTypeDefinitionExtensionsForTypeDefinition
  | AddQueryDefinitionExtensionsForTypeDefinition
  | AddMutationDefinitionExtensionsForTypeDefinition
  | AddSubscriptionDefinitionExtensionsForTypeDefinition
  | AddTypeResolverExtensionsForTypeDefinition
  | AddQueryResolverExtensionsForTypeDefinition
  | AddMutationResolverExtensionsForTypeDefinition
  | AddSubscriptionResolverExtensionsForTypeDefinition

datatype hookArgs = NoArgs | Docs document document | NodeDocs node document document

datatype hookCall = HookCall (callee: string) (called: hook) (args: hookArgs)

section \<open>The registry\<close>

record RegisterRemoteSchemaArgs =
  remoteName :: string
  asyncSchema :: "schema option outcome option"
  remoteSchema :: "schema option"
  executor :: string
  executable :: "schema option"
  transforms :: "transform list option"

record RegisterDirectiveArgs =
  directiveDefinitionArg :: "document option"
  directiveResolversArg :: "(schema \<Rightarrow> schema) object option"

record RegisterTypeArgs =
  typeDefinitionsArg :: "document option"
  queryDefinitionsArg :: "document option"
  mutationDefinitionsArg :: "document option"
  subscriptionDefinitionsArg :: "document option"
  typeResolversArg :: "jsValue object option"
  queryResolversArg :: "jsValue object option"
  mutationResolversArg :: "jsValue object option"
  subscriptionResolversArg :: "jsValue object option"

record RegisterTypeExtensionArgs =
  extensionTypeDefinitionsArg :: "document option"
  extensionQueryDefinitionsArg :: "document option"
  extensionMutationDefinitionsArg :: "document option"
  extensionSubscriptionDefinitionsArg :: "document option"
  extensionTypeResolversArg :: "jsValue object option"
  extensionQueryResolversArg :: "jsValue object option"
  extensionMutationResolversArg :: "jsValue object option"
  extensionSubscriptionResolversArg :: "jsValue object option"

text \<open>
  The fields of \<open>GQLRegistry\<close>. A pre-start function is a callback on the registry;
  the registry holds a handle of it, and the callbacks themselves are supplied to the
  operations that run them as an environment from handles to registry transformers.
  \<open>hookCalls\<close> is not a field of the class: it is the history of the plugin hooks
  invoked so far, which stands for whatever the plugins themselves remember (a
  counter that a hook increments is the number of its entries).
\<close>

record GQLRegistry =
  remoteSchemas :: "RegisterRemoteSchemaArgs object"
  directiveDefinitions :: "node list"
  directiveResolvers :: "(schema \<Rightarrow> schema) object"
  typeDefinitions :: "node list"
  queryDefinitions :: "node list"
  mutationDefinitions :: "node list"
  subscriptionDefinitions :: "node list"
  typeResolvers :: "jsValue object"
  queryResolvers :: "jsValue object"
  mutationResolvers :: "jsValue object"
  subscriptionResolvers :: "jsValue object"
  extensionTypeDefinitions :: "node list"
  extensionQueryDefinitions :: "node list"
  extensionMutationDefinitions :: "node list"
  extensionSubscriptionDefinitions :: "node list"
  extensionTypeResolvers :: "jsValue object"
  extensionQueryResolvers :: "jsValue object"
  extensionMutationResolvers :: "jsValue object"
  extensionSubscriptionResolvers :: "jsValue object"
  internalValues :: "jsValue object"
  executableSchema :: "schema option"
  dataSources :: "string object"
  preStartFunctions :: "nat list"
  hasExecutedPreStart :: bool
  hasProcessedPlugins :: bool
  plugins :: "plugin list"
  hookCalls :: "hookCall list"

type_synonym preStartEnv = "nat \<Rightarrow> GQLRegistry \<Rightarrow> GQLRegistry"

text \<open>The registry as its field initialisers leave it.\<close>

definition newRegistry :: GQLRegistry where
  "newRegistry =
     \<lparr> remoteSchemas = [], directiveDefinitions = [], directiveResolvers = [],
       typeDefinitions = [], queryDefinitions = [], mutationDefinitions = [],
       subscriptionDefinitions = [], typeResolvers = [], queryResolvers = [],
       mutationResolvers = [], subscriptionResolvers = [], extensionTypeDefinitions = [],
       extensionQueryDefinitions = [], extensionMutationDefinitions = [],
       extensionSubscriptionDefinitions = [], extensionTypeResolvers = [],
       extensionQueryResolvers = [], extensionMutationResolvers = [],
       extensionSubscriptionResolvers = [], internalValues = [], executableSchema = None,
       dataSources = [], preStartFunctions = [], hasExecutedPreStart = False,
       hasProcessedPlugins = False, plugins = [], hookCalls = [] \<rparr>"

section \<open>Registration: the merge engine\<close>

text \<open>
  The body shared by every \<open>mergeIncoming...\<close> loop: look the incoming name up with
  \<open>findIndex\<close>, \<open>splice\<close> the entry found out of the array, \<open>push\<close> the new one.
\<close>

definition upsert :: "node list \<Rightarrow> node \<Rightarrow> node list" where
  "upsert defs new =
     (case findIndex (\<lambda>def. nameValue def = nameValue new) defs of
        None \<Rightarrow> defs
      | Some exists \<Rightarrow> splice1 defs exists) @ [new]"

text \<open>
  The \<open>checkForDuplicate...\<close> methods only write warnings to the console; they are
  modelled by the list of warnings they print and leave the registry as it is, so the
  registration methods below, which return the registry, do not mention them.
\<close>

definition duplicateWarnings ::
  "string \<Rightarrow> (node \<Rightarrow> bool) \<Rightarrow> node list \<Rightarrow> node list \<Rightarrow> string list" where
  "duplicateWarnings what accepted stored incoming =
     concat (map (\<lambda>new.
       if accepted new \<and> findIndex (\<lambda>def. nameValue def = nameValue new) stored \<noteq> None
       then [''WARNING: '' @ what @ '' with name '' @ nameValue new @ '' already registered'']
       else []) incoming)"

definition checkForDuplicateDirectives :: "GQLRegistry \<Rightarrow> node list \<Rightarrow> string list" where
  "checkForDuplicateDirectives r incoming =
     duplicateWarnings ''Directive'' (\<lambda>new. kind new = DIRECTIVE_DEFINITION)
       (directiveDefinitions r) incoming"

definition checkForDuplicateTypes :: "GQLRegistry \<Rightarrow> node list \<Rightarrow> string list" where
  "checkForDuplicateTypes r incoming =
     duplicateWarnings ''Type'' isTypeDefinitionNode (typeDefinitions r) incoming"

definition checkForDuplicateQueries :: "GQLRegistry \<Rightarrow> node list \<Rightarrow> string list" where
  "checkForDuplicateQueries r incoming =
     duplicateWarnings ''Query'' (\<lambda>new. kind new = FIELD_DEFINITION)
       (queryDefinitions r) incoming"

definition checkForDuplicateMutations :: "GQLRegistry \<Rightarrow> node list \<Rightarrow> string list" where
  "checkForDuplicateMutations r incoming =
     duplicateWarnings ''Mutation'' (\<lambda>new. kind new = FIELD_DEFINITION)
       (mutationDefinitions r) incoming"

definition checkForDuplicateSubscriptions :: "GQLRegistry \<Rightarrow> node list \<Rightarrow> string list" where
  "checkForDuplicateSubscriptions r incoming =
     duplicateWarnings ''Subscription'' (\<lambda>new. kind new = FIELD_DEFINITION)
       (subscriptionDefinitions r) incoming"

definition mergeIncomingDirectives :: "GQLRegistry \<Rightarrow> node list \<Rightarrow> GQLRegistry" where
  "mergeIncomingDirectives r incoming =
     foldl (\<lambda>r new.
       if kind new = DIRECTIVE_DEFINITION
       then r\<lparr>directiveDefinitions := upsert (directiveDefinitions r) new\<rparr>
       else r) r incoming"

definition mergeIncomingTypes :: "GQLRegistry \<Rightarrow> node list \<Rightarrow> GQLRegistry" where
  "mergeIncomingTypes r incoming =
     foldl (\<lambda>r new.
       if isTypeDefinitionNode new
       then r\<lparr>typeDefinitions := upsert (typeDefinitions r) new\<rparr>
       else r) r incoming"

definition mergeIncomingExtensionTypes :: "GQLRegistry \<Rightarrow> node list \<Rightarrow> GQLRegistry" where
  "mergeIncomingExtensionTypes r incoming =
     foldl (\<lambda>r new.
       if isTypeExtensionNode new
       then r\<lparr>extensionTypeDefinitions := upsert (extensionTypeDefinitions r) new\<rparr>
       else if isTypeDefinitionNode new
       then r\<lparr>typeDefinitions := upsert (typeDefinitions r) new\<rparr>
       else r) r incoming"

definition mergeIncomingQueries :: "GQLRegistry \<Rightarrow> node list \<Rightarrow> GQLRegistry" where
  "mergeIncomingQueries r incoming =
     foldl (\<lambda>r new.
       if kind new = FIELD_DEFINITION
       then r\<lparr>queryDefinitions := upsert (queryDefinitions r) new\<rparr>
       else r) r incoming"

definition mergeIncomingExtensionQueries :: "GQLRegistry \<Rightarrow> node list \<Rightarrow> GQLRegistry" where
  "mergeIncomingExtensionQueries r incoming =
     foldl (\<lambda>r new.
       if kind new = FIELD_DEFINITION
       then r\<lparr>extensionQueryDefinitions := upsert (extensionQueryDefinitions r) new\<rparr>
       else r) r incoming"

definition mergeIncomingMutations :: "GQLRegistry \<Rightarrow> node list \<Rightarrow> GQLRegistry" where
  "mergeIncomingMutations r incoming =
     foldl (\<lambda>r new.
       if kind new = FIELD_DEFINITION
       then r\<lparr>mutationDefinitions := upsert (mutationDefinitions r) new\<rparr>
       else r) r incoming"

definition mergeIncomingExtensionMutations :: "GQLRegistry \<Rightarrow> node list \<Rightarrow> GQLRegistry" where
  "mergeIncomingExtensionMutations r incoming =
     foldl (\<lambda>r new.
       if kind new = FIELD_DEFINITION
       then r\<lparr>extensionMutationDefinitions := upsert (extensionMutationDefinitions r) new\<rparr>
       else r) r incoming"

definition mergeIncomingSubscriptions :: "GQLRegistry \<Rightarrow> node list \<Rightarrow> GQLRegistry" where
  "mergeIncomingSubscriptions r incoming =
     foldl (\<lambda>r new.
       if kind new = FIELD_DEFINITION
       then r\<lparr>subscriptionDefinitions := upsert (subscriptionDefinitions r) new\<rparr>
       else r) r incoming"

definition mergeIncomingExtensionSubscriptions :: "GQLRegistry \<Rightarrow> node list \<Rightarrow> GQLRegistry" where
  "mergeIncomingExtensionSubscriptions r incoming =
     foldl (\<lambda>r new.
       if kind new = FIELD_DEFINITION
       then r\<lparr>extensionSubscriptionDefinitions :=
                upsert (extensionSubscriptionDefinitions r) new\<rparr>
       else r) r incoming"

definition registerDataSource :: "GQLRegistry \<Rightarrow> string \<Rightarrow> string \<Rightarrow> GQLRegistry" where
  "registerDataSource r dsName dataSource =
     r\<lparr>dataSources := assign (dataSources r) dsName dataSource\<rparr>"

definition registerRemoteSchema :: "GQLRegistry \<Rightarrow> RegisterRemoteSchemaArgs \<Rightarrow> GQLRegistry" where
  "registerRemoteSchema r a =
     (if map_of (remoteSchemas r) (remoteName a) = None \<and>
         \<not> List.member objectPrototypeNames (remoteName a)
      then r\<lparr>remoteSchemas :=
               assign (remoteSchemas r) (remoteName a) (a\<lparr>executable := None\<rparr>)\<rparr>
      else r)"

definition registerDirectives :: "GQLRegistry \<Rightarrow> RegisterDirectiveArgs \<Rightarrow> GQLRegistry" where
  "registerDirectives r a =
     (let r = (case directiveDefinitionArg a of
                 None \<Rightarrow> r
               | Some doc \<Rightarrow> mergeIncomingDirectives r doc)
      in r\<lparr>directiveResolvers :=
             assignEach (directiveResolvers r)
               (case directiveResolversArg a of None \<Rightarrow> [] | Some m \<Rightarrow> m)\<rparr>)"

text \<open>
  \<open>(doc?.definitions?.find(def => def.kind === OBJECT_TYPE_DEFINITION && def.name.value
  === container))?.fields ?? []\<close>, as \<open>registerType\<close> and \<open>registerTypeExtension\<close>
  write it for \<open>'Query'\<close>, \<open>'Mutation'\<close> and \<open>'Subscription'\<close>.
\<close>

definition documentDefinitions :: "string \<Rightarrow> document option \<Rightarrow> node list" where
  "documentDefinitions container doc =
     (case doc of
        None \<Rightarrow> []
      | Some definitions \<Rightarrow>
          (case List.find (\<lambda>def. kind def = OBJECT_TYPE_DEFINITION \<and> nameValue def = container)
                  definitions of
             None \<Rightarrow> []
           | Some object \<Rightarrow> node.fields object))"

definition assignAll :: "'v object \<Rightarrow> 'v object option \<Rightarrow> 'v object" where
  "assignAll target source =
     (case source of None \<Rightarrow> target | Some m \<Rightarrow> assignEach target m)"

definition registerType :: "GQLRegistry \<Rightarrow> RegisterTypeArgs \<Rightarrow> GQLRegistry" where
  "registerType r a =
     (let r = (case typeDefinitionsArg a of
                 None \<Rightarrow> r
               | Some doc \<Rightarrow> mergeIncomingTypes r doc);
          r = mergeIncomingQueries r (documentDefinitions ''Query'' (queryDefinitionsArg a));
          r = mergeIncomingMutations r
                (documentDefinitions ''Mutation'' (mutationDefinitionsArg a));
          r = mergeIncomingSubscriptions r
                (documentDefinitions ''Subscription'' (subscriptionDefinitionsArg a));
          r = r\<lparr>typeResolvers := assignAll (typeResolvers r) (typeResolversArg a)\<rparr>;
          r = r\<lparr>queryResolvers := assignAll (queryResolvers r) (queryResolversArg a)\<rparr>;
          r = r\<lparr>mutationResolvers :=
                  assignAll (mutationResolvers r) (mutationResolversArg a)\<rparr>
      in r\<lparr>subscriptionResolvers :=
             assignAll (subscriptionResolvers r) (subscriptionResolversArg a)\<rparr>)"

definition registerTypeExtension ::
  "GQLRegistry \<Rightarrow> RegisterTypeExtensionArgs \<Rightarrow> GQLRegistry" where
  "registerTypeExtension r a =
     (let r = (case extensionTypeDefinitionsArg a of
                 None \<Rightarrow> r
               | Some doc \<Rightarrow> mergeIncomingExtensionTypes r doc);
          r = mergeIncomingExtensionQueries r
                (documentDefinitions ''Query'' (extensionQueryDefinitionsArg a));
          r = mergeIncomingExtensionMutations r
                (documentDefinitions ''Mutation'' (extensionMutationDefinitionsArg a));
          r = mergeIncomingExtensionSubscriptions r
                (documentDefinitions ''Subscription'' (extensionSubscriptionDefinitionsArg a));
          r = r\<lparr>extensionQueryResolvers :=
                  assignAll (extensionQueryResolvers r) (extensionQueryResolversArg a)\<rparr>;
          r = r\<lparr>extensionMutationResolvers :=
                  assignAll (extensionMutationResolvers r) (extensionMutationResolversArg a)\<rparr>;
          r = r\<lparr>extensionTypeResolvers :=
                  assignAll (extensionTypeResolvers r) (extensionTypeResolversArg a)\<rparr>
      in r\<lparr>extensionSubscriptionResolvers :=
             assignAll (extensionSubscriptionResolvers r)
               (extensionSubscriptionResolversArg a)\<rparr>)"

definition registerInternalValues :: "GQLRegistry \<Rightarrow> jsValue object \<Rightarrow> GQLRegistry" where
  "registerInternalValues r vs = r\<lparr>internalValues := spread (internalValues r) vs\<rparr>"

definition registerPreStartFunction :: "GQLRegistry \<Rightarrow> nat \<Rightarrow> GQLRegistry" where
  "registerPreStartFunction r preStartfunction =
     r\<lparr>preStartFunctions := preStartFunctions r @ [preStartfunction]\<rparr>"

text \<open>
  \<open>registerPlugin\<close> writes to the plugin it is given as well as to the registry, so
  it returns both.
\<close>

definition registerPlugin :: "GQLRegistry \<Rightarrow> plugin \<Rightarrow> GQLRegistry \<times> plugin" where
  "registerPlugin r p =
     (case List.find (\<lambda>registeredPlugin. name registeredPlugin = name p) (plugins r) of
        None \<Rightarrow> (r\<lparr>plugins := plugins r @ [p\<lparr>registry := True\<rparr>]\<rparr>, p\<lparr>registry := True\<rparr>)
      | Some isAdded \<Rightarrow> (r, p))"

section \<open>The document assembler\<close>

definition getDefinitionsDocument :: "GQLRegistry \<Rightarrow> document" where
  "getDefinitionsDocument r =
     (let definitions = typeDefinitions r @ directiveDefinitions r;
          definitions =
            (if length (queryDefinitions r) \<noteq> 0
             then definitions @ [Node OBJECT_TYPE_DEFINITION ''Query'' (queryDefinitions r) []]
             else definitions);
          definitions =
            (if length (mutationDefinitions r) \<noteq> 0
             then definitions @
                    [Node OBJECT_TYPE_DEFINITION ''Mutation'' (mutationDefinitions r) []]
             else definitions)
      in if length (subscriptionDefinitions r) \<noteq> 0
         then definitions @
                [Node OBJECT_TYPE_DEFINITION ''Subscription'' (subscriptionDefinitions r) []]
         else definitions)"

definition getExtensionDefinitionsDocument :: "GQLRegistry \<Rightarrow> document" where
  "getExtensionDefinitionsDocument r =
     (let definitions = extensionTypeDefinitions r @ directiveDefinitions r;
          definitions =
            (if length (extensionQueryDefinitions r) \<noteq> 0
             then definitions @
                    [Node OBJECT_TYPE_EXTENSION ''Query'' (extensionQueryDefinitions r) []]
             else definitions);
          definitions =
            (if length (extensionMutationDefinitions r) \<noteq> 0
             then definitions @
                    [Node OBJECT_TYPE_EXTENSION ''Mutation'' (extensionMutationDefinitions r) []]
             else definitions)
      in if length (extensionSubscriptionDefinitions r) \<noteq> 0
         then definitions @
                [Node OBJECT_TYPE_EXTENSION ''Subscription''
                   (extensionSubscriptionDefinitions r) []]
         else definitions)"

section \<open>Resolver maps\<close>

definition getDirectiveResolvers :: "GQLRegistry \<Rightarrow> (schema \<Rightarrow> schema) object" where
  "getDirectiveResolvers r = copy (directiveResolvers r)"

definition getResolvers :: "GQLRegistry \<Rightarrow> jsValue object" where
  "getResolvers r =
     (let definitions = spread (internalValues r) (typeResolvers r);
          definitions =
            (if length (queryResolvers r) \<noteq> 0
             then spread definitions [(''Query'', Obj (copy (queryResolvers r)))]
             else definitions);
          definitions =
            (if length (mutationResolvers r) \<noteq> 0
             then spread definitions [(''Mutation'', Obj (copy (mutationResolvers r)))]
             else definitions)
      in if length (subscriptionResolvers r) \<noteq> 0
         then spread definitions [(''Subscription'', Obj (copy (subscriptionResolvers r)))]
         else definitions)"

definition getExtensionResolvers :: "GQLRegistry \<Rightarrow> jsValue object" where
  "getExtensionResolvers r =
     (let definitions = copy (extensionTypeResolvers r);
          definitions =
            (if length (extensionQueryResolvers r) \<noteq> 0
             then spread definitions [(''Query'', Obj (copy (extensionQueryResolvers r)))]
             else definitions);
          definitions =
            (if length (extensionMutationResolvers r) \<noteq> 0
             then spread definitions
                    [(''Mutation'', Obj (copy (extensionMutationResolvers r)))]
             else definitions)
      in if length (extensionSubscriptionResolvers r) \<noteq> 0
         then spread definitions
                [(''Subscription'', Obj (copy (extensionSubscriptionResolvers r)))]
         else definitions)"

text \<open>
  The two lookups read \<open>this.remoteSchemas[name]\<close>, which for a name that is not an
  own property yields the member inherited from \<open>Object.prototype\<close>, if there is one.
  \<open>getExecutor\<close> then reads \<open>executor\<close> of it, which no inherited member has, and
  returns null; \<open>getRemoteSchema\<close> returns the inherited member itself (\<open>Inl\<close> of its
  name).
\<close>

definition getExecutor :: "GQLRegistry \<Rightarrow> string \<Rightarrow> string option" where
  "getExecutor r n = map_option executor (map_of (remoteSchemas r) n)"

definition getRemoteSchema ::
  "GQLRegistry \<Rightarrow> string \<Rightarrow> (string + RegisterRemoteSchemaArgs) option" where
  "getRemoteSchema r n =
     (case map_of (remoteSchemas r) n of
        Some descriptor \<Rightarrow> Some (Inr descriptor)
      | None \<Rightarrow> if List.member objectPrototypeNames n then Some (Inl n) else None)"

section \<open>Clearing\<close>

text \<open>
  \<open>clear\<close> assigns the fields below, in this order, and then calls the \<open>clear\<close> hook
  of every plugin that has one. It assigns nothing to \<open>preStartFunctions\<close>, to
  \<open>hasExecutedPreStart\<close> and to \<open>plugins\<close>.
\<close>

definition clear :: "GQLRegistry \<Rightarrow> GQLRegistry" where
  "clear r =
     r\<lparr> remoteSchemas := [],
        directiveDefinitions := [], directiveResolvers := [],
        typeDefinitions := [], queryDefinitions := [], mutationDefinitions := [],
        subscriptionDefinitions := [],
        typeResolvers := [], queryResolvers := [], mutationResolvers := [],
        subscriptionResolvers := [],
        extensionTypeDefinitions := [], extensionQueryDefinitions := [],
        extensionMutationDefinitions := [], extensionSubscriptionDefinitions := [],
        extensionQueryResolvers := [], extensionMutationResolvers := [],
        extensionTypeResolvers := [], extensionSubscriptionResolvers := [],
        internalValues := [], executableSchema := None, dataSources := [],
        hasProcessedPlugins := False,
        hookCalls := hookCalls r @
          map (\<lambda>plu. HookCall (name plu) Clear NoArgs) (filter clearHook (plugins r)) \<rparr>"

section \<open>The plugin pipeline\<close>

text \<open>
  Calling an optional hook, \<open>plugin.hook?.(...)\<close>: a hook that is there is invoked,
  which the history records, and its result is returned; a hook that is not there
  yields a nullish result and no invocation.
\<close>

definition notify ::
  "plugin \<Rightarrow> hook \<Rightarrow> bool \<Rightarrow> document \<Rightarrow> document \<Rightarrow> GQLRegistry \<Rightarrow> GQLRegistry" where
  "notify p h present schema extensions r =
     (if present
      then r\<lparr>hookCalls := hookCalls r @ [HookCall (name p) h (Docs schema extensions)]\<rparr>
      else r)"

definition callGlobal ::
  "plugin \<Rightarrow> hook \<Rightarrow> 'a globalHook \<Rightarrow> document \<Rightarrow> document \<Rightarrow> GQLRegistry
     \<Rightarrow> 'a option \<times> GQLRegistry" where
  "callGlobal p h f schema extensions r =
     (case f of
        None \<Rightarrow> (None, r)
      | Some g \<Rightarrow>
          (g schema extensions,
           r\<lparr>hookCalls := hookCalls r @ [HookCall (name p) h (Docs schema extensions)]\<rparr>))"

definition callNode ::
  "plugin \<Rightarrow> hook \<Rightarrow> 'a nodeHook \<Rightarrow> node \<Rightarrow> document \<Rightarrow> document \<Rightarrow> GQLRegistry
     \<Rightarrow> 'a option \<times> GQLRegistry" where
  "callNode p h f d schema extensions r =
     (case f of
        None \<Rightarrow> (None, r)
      | Some g \<Rightarrow>
          (g d schema extensions,
           r\<lparr>hookCalls := hookCalls r @ [HookCall (name p) h (NodeDocs d schema extensions)]\<rparr>))"

text \<open>
  \<open>updatePluginSchemas\<close>: every plugin is told the documents as the registry has
  them now.
\<close>

definition updatePluginSchemas :: "GQLRegistry \<Rightarrow> GQLRegistry" where
  "updatePluginSchemas r =
     foldl (\<lambda>r plugin.
       notify plugin SchemaUpdated (schemaUpdated plugin)
         (getDefinitionsDocument r) (getExtensionDefinitionsDocument r) r) r (plugins r)"

text \<open>
  The two shapes of the sub-steps. \<open>offerGlobal\<close> is a global hook followed by
  \<open>if (result) { merge; didUpdate = true }\<close>; \<open>offerEach\<close> is the loop over
  \<open>schema.definitions\<close> that does the same with a per-definition hook. Both carry the
  registry and \<open>didUpdate\<close>. The resolver sub-steps have no \<open>didUpdate\<close> and use
  these with the flag ignored.
\<close>

definition offerGlobal ::
  "plugin \<Rightarrow> hook \<Rightarrow> 'a globalHook \<Rightarrow> (GQLRegistry \<Rightarrow> 'a \<Rightarrow> GQLRegistry)
     \<Rightarrow> document \<Rightarrow> document \<Rightarrow> GQLRegistry \<times> bool \<Rightarrow> GQLRegistry \<times> bool" where
  "offerGlobal p h f merge schema extensions state =
     (case callGlobal p h f schema extensions (fst state) of
        (None, r) \<Rightarrow> (r, snd state)
      | (Some contribution, r) \<Rightarrow> (merge r contribution, True))"

definition offerEach ::
  "plugin \<Rightarrow> hook \<Rightarrow> 'a nodeHook \<Rightarrow> (GQLRegistry \<Rightarrow> 'a \<Rightarrow> GQLRegistry)
     \<Rightarrow> document \<Rightarrow> document \<Rightarrow> GQLRegistry \<times> bool \<Rightarrow> GQLRegistry \<times> bool" where
  "offerEach p h f merge schema extensions state =
     foldl (\<lambda>state typeDefinition.
       case callNode p h f typeDefinition schema extensions (fst state) of
         (None, r) \<Rightarrow> (r, snd state)
       | (Some contribution, r) \<Rightarrow> (merge r contribution, True)) state schema"

definition rebroadcast :: "GQLRegistry \<times> bool \<Rightarrow> GQLRegistry" where
  "rebroadcast state = (if snd state then updatePluginSchemas (fst state) else fst state)"

text \<open>
  The loop of \<open>preProcessPluginUpdateTypes\<close> and \<open>postProcessPluginUpdateTypes\<close>:
  the replacements are collected first and merged after the loop.
\<close>

definition collectEach ::
  "plugin \<Rightarrow> hook \<Rightarrow> node nodeHook \<Rightarrow> document \<Rightarrow> document \<Rightarrow> GQLRegistry
     \<Rightarrow> node list \<times> GQLRegistry" where
  "collectEach p h f schema extensions r =
     foldl (\<lambda>(newTypeDefinitions, r) typeDefinition.
       case callNode p h f typeDefinition schema extensions r of
         (None, r) \<Rightarrow> (newTypeDefinitions, r)
       | (Some updatedTypeDefiniton, r) \<Rightarrow> (newTypeDefinitions @ [updatedTypeDefiniton], r))
       ([], r) schema"

definition processPluginDirectiveDefinitions ::
  "document \<Rightarrow> document \<Rightarrow> plugin \<Rightarrow> GQLRegistry \<Rightarrow> GQLRegistry" where
  "processPluginDirectiveDefinitions schema extensions plugin r =
     rebroadcast
       (offerGlobal plugin AddDirectiveDefinitions (addDirectiveDefinitions plugin)
          mergeIncomingDirectives schema extensions (r, False))"

definition processPluginDirectiveResolvers ::
  "document \<Rightarrow> document \<Rightarrow> plugin \<Rightarrow> GQLRegistry \<Rightarrow> GQLRegistry" where
  "processPluginDirectiveResolvers schema extensions plugin r =
     fst (offerGlobal plugin AddDirectiveResolvers (addDirectiveResolvers plugin)
            (\<lambda>r m. r\<lparr>directiveResolvers := spread (directiveResolvers r) m\<rparr>)
            schema extensions (r, False))"

definition preProcessPluginUpdateTypes ::
  "document \<Rightarrow> document \<Rightarrow> plugin \<Rightarrow> GQLRegistry \<Rightarrow> GQLRegistry" where
  "preProcessPluginUpdateTypes schema extensions plugin r =
     (case collectEach plugin AddPrePropertiesToTypeDefinition
             (addPrePropertiesToTypeDefinition plugin) schema extensions r of
        (newTypeDefinitions, r) \<Rightarrow>
          if length newTypeDefinitions \<noteq> 0
          then updatePluginSchemas (mergeIncomingTypes r newTypeDefinitions)
          else r)"

definition postProcessPluginUpdateTypes ::
  "document \<Rightarrow> document \<Rightarrow> plugin \<Rightarrow> GQLRegistry \<Rightarrow> GQLRegistry" where
  "postProcessPluginUpdateTypes schema extensions plugin r =
     (case collectEach plugin AddPostPropertiesToTypeDefinition
             (addPostPropertiesToTypeDefinition plugin) schema extensions r of
        (newTypeDefinitions, r) \<Rightarrow>
          if length newTypeDefinitions \<noteq> 0
          then updatePluginSchemas (mergeIncomingTypes r newTypeDefinitions)
          else r)"

definition processPluginTypeDefinitions ::
  "document \<Rightarrow> document \<Rightarrow> plugin \<Rightarrow> GQLRegistry \<Rightarrow> GQLRegistry" where
  "processPluginTypeDefinitions schema extensions plugin r =
     rebroadcast
       (offerEach plugin AddTypeDefinitionsForTypeDefinition
          (addTypeDefinitionsForTypeDefinition plugin) mergeIncomingTypes schema extensions
          (offerGlobal plugin AddTypeDefinitions (addTypeDefinitions plugin)
             mergeIncomingTypes schema extensions (r, False)))"

definition processPluginTypeExtensionDefinitions ::
  "document \<Rightarrow> document \<Rightarrow> plugin \<Rightarrow> GQLRegistry \<Rightarrow> GQLRegistry" where
  "processPluginTypeExtensionDefinitions schema extensions plugin r =
     rebroadcast
       (offerEach plugin AddTypeDefinitionExtensionsForTypeDefinition
          (addTypeDefinitionExtensionsForTypeDefinition plugin) mergeIncomingExtensionTypes
          schema extensions (r, False))"

definition processPluginTypeResolvers ::
  "document \<Rightarrow> document \<Rightarrow> plugin \<Rightarrow> GQLRegistry \<Rightarrow> GQLRegistry" where
  "processPluginTypeResolvers schema extensions plugin r =
     fst (offerEach plugin AddTypeResolversForTypeDefinition
            (addTypeResolversForTypeDefinition plugin)
            (\<lambda>r m. r\<lparr>typeResolvers := spread (typeResolvers r) m\<rparr>) schema extensions
            (offerGlobal plugin AddTypeResolvers (addTypeResolvers plugin)
               (\<lambda>r m. r\<lparr>typeResolvers := spread (typeResolvers r) m\<rparr>)
               schema extensions (r, False)))"

definition processPluginTypeExtensionResolvers ::
  "document \<Rightarrow> document \<Rightarrow> plugin \<Rightarrow> GQLRegistry \<Rightarrow> GQLRegistry" where
  "processPluginTypeExtensionResolvers schema extensions plugin r =
     fst (offerEach plugin AddTypeResolverExtensionsForTypeDefinition
            (addTypeResolverExtensionsForTypeDefinition plugin)
            (\<lambda>r m. r\<lparr>extensionTypeResolvers := spread (extensionTypeResolvers r) m\<rparr>)
            schema extensions (r, False))"

definition processPluginQueryDefinitions ::
  "document \<Rightarrow> document \<Rightarrow> plugin \<Rightarrow> GQLRegistry \<Rightarrow> GQLRegistry" where
  "processPluginQueryDefinitions schema extensions plugin r =
     rebroadcast
       (offerEach plugin AddQueryDefinitionsForTypeDefinition
          (addQueryDefinitionsForTypeDefinition plugin) mergeIncomingQueries schema extensions
          (offerGlobal plugin AddQueryDefinitions (addQueryDefinitions plugin)
             mergeIncomingQueries schema extensions (r, False)))"

definition processPluginQueryExtensionDefinitions ::
  "document \<Rightarrow> document \<Rightarrow> plugin \<Rightarrow> GQLRegistry \<Rightarrow> GQLRegistry" where
  "processPluginQueryExtensionDefinitions schema extensions plugin r =
     rebroadcast
       (offerEach plugin AddQueryDefinitionExtensionsForTypeDefinition
          (addQueryDefinitionExtensionsForTypeDefinition plugin) mergeIncomingExtensionQueries
          schema extensions (r, False))"

definition processPluginQueryResolvers ::
  "document \<Rightarrow> document \<Rightarrow> plugin \<Rightarrow> GQLRegistry \<Rightarrow> GQLRegistry" where
  "processPluginQueryResolvers schema extensions plugin r =
     fst (offerEach plugin AddQueryResolversForTypeDefinition
            (addQueryResolversForTypeDefinition plugin)
            (\<lambda>r m. r\<lparr>queryResolvers := spread (queryResolvers r) m\<rparr>) schema extensions
            (offerGlobal plugin AddQueryResolvers (addQueryResolvers plugin)
               (\<lambda>r m. r\<lparr>queryResolvers := spread (queryResolvers r) m\<rparr>)
               schema extensions (r, False)))"

definition processPluginQueryExtensionResolvers ::
  "document \<Rightarrow> document \<Rightarrow> plugin \<Rightarrow> GQLRegistry \<Rightarrow> GQLRegistry" where
  "processPluginQueryExtensionResolvers schema extensions plugin r =
     fst (offerEach plugin AddQueryResolverExtensionsForTypeDefinition
            (addQueryResolverExtensionsForTypeDefinition plugin)
            (\<lambda>r m. r\<lparr>extensionQueryResolvers := spread (extensionQueryResolvers r) m\<rparr>)
            schema extensions (r, False))"

definition processPluginMutationDefinitions ::
  "document \<Rightarrow> document \<Rightarrow> plugin \<Rightarrow> GQLRegistry \<Rightarrow> GQLRegistry" where
  "processPluginMutationDefinitions schema extensions plugin r =
     rebroadcast
       (offerEach plugin AddMutationDefinitionsForTypeDefinition
          (addMutationDefinitionsForTypeDefinition plugin) mergeIncomingMutations
          schema extensions
          (offerGlobal plugin AddMutationDefinitions (addMutationDefinitions plugin)
             mergeIncomingMutations schema extensions (r, False)))"

definition processPluginMutationExtensionDefinitions ::
  "document \<Rightarrow> document \<Rightarrow> plugin \<Rightarrow> GQLRegistry \<Rightarrow> GQLRegistry" where
  "processPluginMutationExtensionDefinitions schema extensions plugin r =
     rebroadcast
       (offerEach plugin AddMutationDefinitionExtensionsForTypeDefinition
          (addMutationDefinitionExtensionsForTypeDefinition plugin)
          mergeIncomingExtensionMutations schema extensions (r, False))"

definition processPluginMutationResolvers ::
  "document \<Rightarrow> document \<Rightarrow> plugin \<Rightarrow> GQLRegistry \<Rightarrow> GQLRegistry" where
  "processPluginMutationResolvers schema extensions plugin r =
     fst (offerEach plugin AddMutationResolversForTypeDefinition
            (addMutationResolversForTypeDefinition plugin)
            (\<lambda>r m. r\<lparr>mutationResolvers := spread (mutationResolvers r) m\<rparr>) schema extensions
            (offerGlobal plugin AddMutationResolvers (addMutationResolvers plugin)
               (\<lambda>r m. r\<lparr>mutationResolvers := spread (mutationResolvers r) m\<rparr>)
               schema extensions (r, False)))"

definition processPluginMutationExtensionResolvers ::
  "document \<Rightarrow> document \<Rightarrow> plugin \<Rightarrow> GQLRegistry \<Rightarrow> GQLRegistry" where
  "processPluginMutationExtensionResolvers schema extensions plugin r =
     fst (offerEach plugin AddMutationResolverExtensionsForTypeDefinition
            (addMutationResolverExtensionsForTypeDefinition plugin)
            (\<lambda>r m. r\<lparr>extensionMutationResolvers := spread (extensionMutationResolvers r) m\<rparr>)
            schema extensions (r, False))"

definition processPluginSubscriptionDefinitions ::
  "document \<Rightarrow> document \<Rightarrow> plugin \<Rightarrow> GQLRegistry \<Rightarrow> GQLRegistry" where
  "processPluginSubscriptionDefinitions schema extensions plugin r =
     rebroadcast
       (offerEach plugin AddSubscriptionDefinitionsForTypeDefinition
          (addSubscriptionDefinitionsForTypeDefinition plugin) mergeIncomingSubscriptions
          schema extensions
          (offerGlobal plugin AddSubscriptionDefinitions (addSubscriptionDefinitions plugin)
             mergeIncomingSubscriptions schema extensions (r, False)))"

definition processPluginSubscriptionExtensionDefinitions ::
  "document \<Rightarrow> document \<Rightarrow> plugin \<Rightarrow> GQLRegistry \<Rightarrow> GQLRegistry" where
  "processPluginSubscriptionExtensionDefinitions schema extensions plugin r =
     rebroadcast
       (offerEach plugin AddSubscriptionDefinitionExtensionsForTypeDefinition
          (addSubscriptionDefinitionExtensionsForTypeDefinition plugin)
          mergeIncomingExtensionSubscriptions schema extensions (r, False))"

definition processPluginSubscriptionResolvers ::
  "document \<Rightarrow> document \<Rightarrow> plugin \<Rightarrow> GQLRegistry \<Rightarrow> GQLRegistry" where
  "processPluginSubscriptionResolvers schema extensions plugin r =
     fst (offerEach plugin AddSubscriptionResolversForTypeDefinition
            (addSubscriptionResolversForTypeDefinition plugin)
            (\<lambda>r m. r\<lparr>subscriptionResolvers := spread (subscriptionResolvers r) m\<rparr>)
            schema extensions
            (offerGlobal plugin AddSubscriptionResolvers (addSubscriptionResolvers plugin)
               (\<lambda>r m. r\<lparr>subscriptionResolvers := spread (subscriptionResolvers r) m\<rparr>)
               schema extensions (r, False)))"

definition processPluginSubscriptionExtensionResolvers ::
  "document \<Rightarrow> document \<Rightarrow> plugin \<Rightarrow> GQLRegistry \<Rightarrow> GQLRegistry" where
  "processPluginSubscriptionExtensionResolvers schema extensions plugin r =
     fst (offerEach plugin AddSubscriptionResolverExtensionsForTypeDefinition
            (addSubscriptionResolverExtensionsForTypeDefinition plugin)
            (\<lambda>r m. r\<lparr>extensionSubscriptionResolvers :=
                      spread (extensionSubscriptionResolvers r) m\<rparr>)
            schema extensions (r, False))"

text \<open>
  The body of each \<open>for\<close> loop of \<open>processPlugins\<close>, one plugin each. Every body
  computes \<open>schema\<close> and \<open>extensions\<close> once, on entry, and hands these same two
  documents to each of the calls it makes. A hook is a function of its arguments and
  registers no plugin, so every loop runs over the plugins as they are when it starts.
\<close>

definition initialNotify :: "document \<Rightarrow> document \<Rightarrow> GQLRegistry \<Rightarrow> plugin \<Rightarrow> GQLRegistry" where
  "initialNotify schema extensions r plugin =
     notify plugin SetInitialSchema (setInitialSchema plugin) schema extensions r"

definition preProcessPlugin :: "GQLRegistry \<Rightarrow> plugin \<Rightarrow> GQLRegistry" where
  "preProcessPlugin r plugin =
     preProcessPluginUpdateTypes (getDefinitionsDocument r) (getExtensionDefinitionsDocument r)
       plugin r"

definition mainSubSteps ::
  "(document \<Rightarrow> document \<Rightarrow> plugin \<Rightarrow> GQLRegistry \<Rightarrow> GQLRegistry) list" where
  "mainSubSteps =
     [processPluginTypeDefinitions,
      processPluginTypeExtensionDefinitions,
      processPluginTypeResolvers,
      processPluginTypeExtensionResolvers,
      processPluginQueryDefinitions,
      processPluginQueryExtensionDefinitions,
      processPluginQueryResolvers,
      processPluginQueryExtensionResolvers,
      processPluginMutationDefinitions,
      processPluginMutationExtensionDefinitions,
      processPluginMutationResolvers,
      processPluginMutationExtensionResolvers,
      processPluginSubscriptionDefinitions,
      processPluginSubscriptionExtensionDefinitions,
      processPluginSubscriptionResolvers,
      processPluginSubscriptionExtensionResolvers]"

definition mainProcessPlugin :: "GQLRegistry \<Rightarrow> plugin \<Rightarrow> GQLRegistry" where
  "mainProcessPlugin r plugin =
     (let schema = getDefinitionsDocument r;
          extensions = getExtensionDefinitionsDocument r
      in foldl (\<lambda>r subStep. subStep schema extensions plugin r) r mainSubSteps)"

definition directivesAndPostProcessPlugin :: "GQLRegistry \<Rightarrow> plugin \<Rightarrow> GQLRegistry" where
  "directivesAndPostProcessPlugin r plugin =
     (let schema = getDefinitionsDocument r;
          extensions = getExtensionDefinitionsDocument r;
          r = processPluginDirectiveDefinitions schema extensions plugin r;
          r = processPluginDirectiveResolvers schema extensions plugin r
      in postProcessPluginUpdateTypes schema extensions plugin r)"

text \<open>
  The last loop: \<open>validateSchema\<close>, then \<open>setFinalSchema\<close>, plugin by plugin. A
  \<open>validateSchema\<close> that raises ends \<open>processPlugins\<close> there.
\<close>

fun validateAndFinish ::
  "document \<Rightarrow> document \<Rightarrow> plugin list \<Rightarrow> GQLRegistry \<Rightarrow> unit outcome \<times> GQLRegistry" where
  "validateAndFinish schema extensions [] r = (Resolved (), r)"
| "validateAndFinish schema extensions (plugin # rest) r =
     (case callGlobal plugin ValidateSchema (validateSchema plugin) schema extensions r of
        (Some message, r) \<Rightarrow> (Rejected (Raised message), r)
      | (None, r) \<Rightarrow>
          validateAndFinish schema extensions rest
            (notify plugin SetFinalSchema (setFinalSchema plugin) schema extensions r))"

text \<open>The registry as it is when the last \<open>for\<close> loop of \<open>processPlugins\<close> starts.\<close>

definition runPluginPhases :: "GQLRegistry \<Rightarrow> GQLRegistry" where
  "runPluginPhases r =
     (let r = foldl (initialNotify (getDefinitionsDocument r)
                       (getExtensionDefinitionsDocument r)) r (plugins r);
          r = foldl preProcessPlugin r (plugins r);
          r = foldl mainProcessPlugin r (plugins r)
      in foldl directivesAndPostProcessPlugin r (plugins r))"

definition processPlugins :: "GQLRegistry \<Rightarrow> unit outcome \<times> GQLRegistry" where
  "processPlugins r =
     (if hasProcessedPlugins r then (Resolved (), r)
      else
        (let r = runPluginPhases r in
         case validateAndFinish (getDefinitionsDocument r)
                (getExtensionDefinitionsDocument r) (plugins r) r of
           (Rejected e, r) \<Rightarrow> (Rejected e, r)
         | (Resolved u, r) \<Rightarrow> (Resolved (), r\<lparr>hasProcessedPlugins := True\<rparr>)))"

definition getPlugin :: "GQLRegistry \<Rightarrow> string \<Rightarrow> error + plugin" where
  "getPlugin r n =
     (case List.find (\<lambda>plu. name plu = n) (plugins r) of
        None \<Rightarrow> Inl (Raised (''Cannot find registry plugin with name '' @ n))
      | Some plugin \<Rightarrow> Inr plugin)"

section \<open>Finalization\<close>

text \<open>
  \<open>preStart\<close> runs the pre-start functions by index over the array as it is at each
  step, so a function that registers another one lengthens the loop; a loop that never
  ends is the value \<open>None\<close>.
\<close>

partial_function (option) preStartFrom ::
  "preStartEnv \<Rightarrow> nat \<Rightarrow> GQLRegistry \<Rightarrow> GQLRegistry option" where
  "preStartFrom env p r =
     (if p < length (preStartFunctions r)
      then preStartFrom env (Suc p) (env (preStartFunctions r ! p) r)
      else Some r)"

definition preStart :: "preStartEnv \<Rightarrow> GQLRegistry \<Rightarrow> GQLRegistry option" where
  "preStart env r =
     (if hasExecutedPreStart r then Some r
      else map_option (\<lambda>r. r\<lparr>hasExecutedPreStart := True\<rparr>) (preStartFrom env 0 r))"

definition transformSchema :: "schema \<Rightarrow> string \<Rightarrow> transform list option \<Rightarrow> schema" where
  "transformSchema schema exec given =
     WrapSchema schema exec
       ([RenameTypes, RenameRootTypes, RenameRootFields, RenameObjectFields,
         RenameInterfaceFields, RenameInputObjectFields]
        @ (case given of None \<Rightarrow> [] | Some ts \<Rightarrow> ts))"

text \<open>
  The loop over \<open>Object.keys(this.remoteSchemas)\<close> that \<open>getSchema\<close> and
  \<open>getExecutableSchema\<close> both contain: each descriptor's source is resolved (the
  supplier awaited, which may reject, or the eager schema taken), wrapped, pushed
  onto the local array \<open>remoteSchemas\<close> (here \<open>wrapped\<close>) and stored as the descriptor's \<open>executable\<close>.
\<close>

definition wrapRemote ::
  "string \<Rightarrow> RegisterRemoteSchemaArgs \<Rightarrow> schema \<Rightarrow> schema list \<times> GQLRegistry
     \<Rightarrow> schema list \<times> GQLRegistry" where
  "wrapRemote n d schema state =
     (let wrappedSchema = transformSchema schema (executor d) (transforms d)
      in (fst state @ [wrappedSchema],
          (snd state)\<lparr>remoteSchemas :=
             assign (remoteSchemas (snd state)) n (d\<lparr>executable := Some wrappedSchema\<rparr>)\<rparr>))"

fun wrapRemoteSchemas ::
  "RegisterRemoteSchemaArgs object \<Rightarrow> schema list \<times> GQLRegistry
     \<Rightarrow> schema list outcome \<times> GQLRegistry" where
  "wrapRemoteSchemas [] state = (Resolved (fst state), snd state)"
| "wrapRemoteSchemas ((n, d) # rest) state =
     (case asyncSchema d of
        Some (Rejected e) \<Rightarrow> (Rejected e, snd state)
      | Some (Resolved None) \<Rightarrow> wrapRemoteSchemas rest state
      | Some (Resolved (Some schema)) \<Rightarrow> wrapRemoteSchemas rest (wrapRemote n d schema state)
      | None \<Rightarrow>
          (case remoteSchema d of
             Some schema \<Rightarrow> wrapRemoteSchemas rest (wrapRemote n d schema state)
           | None \<Rightarrow> wrapRemoteSchemas rest state))"

definition applyDirectiveResolvers :: "GQLRegistry \<Rightarrow> schema \<Rightarrow> schema" where
  "applyDirectiveResolvers r s = foldl (\<lambda>s (k, resolver). resolver s) s (directiveResolvers r)"

definition getFederatableSchema ::
  "preStartEnv \<Rightarrow> GQLRegistry \<Rightarrow> (schema outcome \<times> GQLRegistry) option" where
  "getFederatableSchema env r =
     (case preStart env r of
        None \<Rightarrow> None
      | Some r \<Rightarrow>
          (case processPlugins r of
             (Rejected e, r) \<Rightarrow> Some (Rejected e, r)
           | (Resolved u, r) \<Rightarrow>
               Some (Resolved (applyDirectiveResolvers r
                       (MakeExecutableSchema (getDefinitionsDocument r) (Some (getResolvers r)))),
                     r)))"

definition getSchema ::
  "preStartEnv \<Rightarrow> GQLRegistry \<Rightarrow> (schema outcome \<times> GQLRegistry) option" where
  "getSchema env r =
     (case preStart env r of
        None \<Rightarrow> None
      | Some r \<Rightarrow>
          (case processPlugins r of
             (Rejected e, r) \<Rightarrow> Some (Rejected e, r)
           | (Resolved u, r) \<Rightarrow>
               (let localSchema = MakeExecutableSchema (getDefinitionsDocument r) None
                in case wrapRemoteSchemas (remoteSchemas r) ([], r) of
                     (Rejected e, r) \<Rightarrow> Some (Rejected e, r)
                   | (Resolved wrapped, r) \<Rightarrow>
                       Some (Resolved (StitchSchemas (localSchema # wrapped)
                                         (getExtensionDefinitionsDocument r) None),
                             r))))"

definition getExecutableSchema ::
  "preStartEnv \<Rightarrow> GQLRegistry \<Rightarrow> (schema outcome \<times> GQLRegistry) option" where
  "getExecutableSchema env r =
     (case preStart env r of
        None \<Rightarrow> None
      | Some r \<Rightarrow>
          (case processPlugins r of
             (Rejected e, r) \<Rightarrow> Some (Rejected e, r)
           | (Resolved u, r) \<Rightarrow>
               (case executableSchema r of
                  Some cached \<Rightarrow> Some (Resolved cached, r)
                | None \<Rightarrow>
                    (let localSchema =
                           MakeExecutableSchema (getDefinitionsDocument r) (Some (getResolvers r))
                     in case wrapRemoteSchemas (remoteSchemas r) ([], r) of
                          (Rejected e, r) \<Rightarrow> Some (Rejected e, r)
                        | (Resolved wrapped, r) \<Rightarrow>
                            (let gatewaySchema =
                                   applyDirectiveResolvers r
                                     (StitchSchemas (localSchema # wrapped)
                                        (getExtensionDefinitionsDocument r)
                                        (Some (getExtensionResolvers r)))
                             in Some (Resolved gatewaySchema,
                                      r\<lparr>executableSchema := Some gatewaySchema\<rparr>))))))"

section \<open>Vocabulary of the properties\<close>

subsection \<open>Declaration sequences\<close>

text \<open>
  What \<open>findIndex\<close> followed by \<open>splice\<close> does to an array: the first entry that
  satisfies the predicate is removed.
\<close>

definition removeFirst :: "('a \<Rightarrow> bool) \<Rightarrow> 'a list \<Rightarrow> 'a list" where
  "removeFirst P xs = (case findIndex P xs of None \<Rightarrow> xs | Some i \<Rightarrow> splice1 xs i)"

text \<open>
  Of a list of declarations, the last one of each name, in the order of these last
  occurrences.
\<close>

fun lastByName :: "node list \<Rightarrow> node list" where
  "lastByName [] = []"
| "lastByName (d # ds) =
     (if nameValue d \<in> set (map nameValue ds) then lastByName ds else d # lastByName ds)"

text \<open>
  The nine declaration sequences of the registry, and the sequence of each.
\<close>

datatype category =
    Directive | Type | Query | Mutation | Subscription
  | ExtensionType | ExtensionQuery | ExtensionMutation | ExtensionSubscription

fun store :: "category \<Rightarrow> GQLRegistry \<Rightarrow> node list" where
  "store Directive r = directiveDefinitions r"
| "store Type r = typeDefinitions r"
| "store Query r = queryDefinitions r"
| "store Mutation r = mutationDefinitions r"
| "store Subscription r = subscriptionDefinitions r"
| "store ExtensionType r = extensionTypeDefinitions r"
| "store ExtensionQuery r = extensionQueryDefinitions r"
| "store ExtensionMutation r = extensionMutationDefinitions r"
| "store ExtensionSubscription r = extensionSubscriptionDefinitions r"

text \<open>
  One call of a \<open>mergeIncoming...\<close> method, so that a sequence of merges is a list;
  \<open>arriving c m\<close> is what the merge \<open>m\<close> accepts for the sequence of category \<open>c\<close>
  (\<open>mergeIncomingExtensionTypes\<close> routes type definitions to the base sequence).
\<close>

datatype incoming =
    IncomingDirectives "node list"
  | IncomingTypes "node list"
  | IncomingExtensionTypes "node list"
  | IncomingQueries "node list"
  | IncomingExtensionQueries "node list"
  | IncomingMutations "node list"
  | IncomingExtensionMutations "node list"
  | IncomingSubscriptions "node list"
  | IncomingExtensionSubscriptions "node list"

fun mergeIncoming :: "GQLRegistry \<Rightarrow> incoming \<Rightarrow> GQLRegistry" where
  "mergeIncoming r (IncomingDirectives ds) = mergeIncomingDirectives r ds"
| "mergeIncoming r (IncomingTypes ds) = mergeIncomingTypes r ds"
| "mergeIncoming r (IncomingExtensionTypes ds) = mergeIncomingExtensionTypes r ds"
| "mergeIncoming r (IncomingQueries ds) = mergeIncomingQueries r ds"
| "mergeIncoming r (IncomingExtensionQueries ds) = mergeIncomingExtensionQueries r ds"
| "mergeIncoming r (IncomingMutations ds) = mergeIncomingMutations r ds"
| "mergeIncoming r (IncomingExtensionMutations ds) = mergeIncomingExtensionMutations r ds"
| "mergeIncoming r (IncomingSubscriptions ds) = mergeIncomingSubscriptions r ds"
| "mergeIncoming r (IncomingExtensionSubscriptions ds) =
     mergeIncomingExtensionSubscriptions r ds"

fun arriving :: "category \<Rightarrow> incoming \<Rightarrow> node list" where
  "arriving Directive (IncomingDirectives ds) =
     filter (\<lambda>new. kind new = DIRECTIVE_DEFINITION) ds"
| "arriving Type (IncomingTypes ds) = filter isTypeDefinitionNode ds"
| "arriving Type (IncomingExtensionTypes ds) =
     filter (\<lambda>new. \<not> isTypeExtensionNode new \<and> isTypeDefinitionNode new) ds"
| "arriving ExtensionType (IncomingExtensionTypes ds) = filter isTypeExtensionNode ds"
| "arriving Query (IncomingQueries ds) = filter (\<lambda>new. kind new = FIELD_DEFINITION) ds"
| "arriving ExtensionQuery (IncomingExtensionQueries ds) =
     filter (\<lambda>new. kind new = FIELD_DEFINITION) ds"
| "arriving Mutation (IncomingMutations ds) =
     filter (\<lambda>new. kind new = FIELD_DEFINITION) ds"
| "arriving ExtensionMutation (IncomingExtensionMutations ds) =
     filter (\<lambda>new. kind new = FIELD_DEFINITION) ds"
| "arriving Subscription (IncomingSubscriptions ds) =
     filter (\<lambda>new. kind new = FIELD_DEFINITION) ds"
| "arriving ExtensionSubscription (IncomingExtensionSubscriptions ds) =
     filter (\<lambda>new. kind new = FIELD_DEFINITION) ds"
| "arriving c m = []"

text \<open>
  No name occurs twice in a declaration sequence.
\<close>

definition namesUnique :: "GQLRegistry \<Rightarrow> bool" where
  "namesUnique r =
     list_all (\<lambda>c. distinct (map nameValue (store c r)))
       [Directive, Type, Query, Mutation, Subscription,
        ExtensionType, ExtensionQuery, ExtensionMutation, ExtensionSubscription]"

subsection \<open>Example declarations\<close>

definition bookV1 :: node where
  "bookV1 = Node OBJECT_TYPE_DEFINITION ''Book'' [] ''first''"

definition bookV2 :: node where
  "bookV2 = Node OBJECT_TYPE_DEFINITION ''Book'' [] ''second''"

definition authorV1 :: node where
  "authorV1 = Node OBJECT_TYPE_DEFINITION ''Author'' [] ''first''"

text \<open>
  The argument of \<open>registerType({ typeDefinitions })\<close>.
\<close>

definition typesOnly :: "document \<Rightarrow> RegisterTypeArgs" where
  "typesOnly doc =
     \<lparr> typeDefinitionsArg = Some doc, queryDefinitionsArg = None,
       mutationDefinitionsArg = None, subscriptionDefinitionsArg = None,
       typeResolversArg = None, queryResolversArg = None, mutationResolversArg = None,
       subscriptionResolversArg = None \<rparr>"

subsection \<open>Assembled documents\<close>

text \<open>
  What an assembled document holds after the stored type and directive declarations:
  the containers that the assembler synthesizes.
\<close>

definition synthesized :: "GQLRegistry \<Rightarrow> node list" where
  "synthesized r =
     drop (length (typeDefinitions r) + length (directiveDefinitions r))
       (getDefinitionsDocument r)"

definition synthesizedExtensions :: "GQLRegistry \<Rightarrow> node list" where
  "synthesizedExtensions r =
     drop (length (extensionTypeDefinitions r) + length (directiveDefinitions r))
       (getExtensionDefinitionsDocument r)"






subsection \<open>Steps of the pipeline\<close>

text \<open>
  \<open>newCalls r r'\<close> are the hook calls made between the registry \<open>r\<close> and a later
  registry \<open>r'\<close>. A step \<open>advances Q\<close> from \<open>r\<close> to \<open>r'\<close> when it leaves the plugins, both
  flags, the cached schema, the pre-start functions and the remote descriptors alone,
  loses no type name, keeps the history of hook calls and adds to it only calls that
  satisfy \<open>Q\<close>.
\<close>

definition newCalls :: "GQLRegistry \<Rightarrow> GQLRegistry \<Rightarrow> hookCall list" where
  "newCalls r r' = drop (length (hookCalls r)) (hookCalls r')"

definition typeNames :: "GQLRegistry \<Rightarrow> string set" where
  "typeNames r = set (map nameValue (typeDefinitions r))"

definition advances :: "(hookCall \<Rightarrow> bool) \<Rightarrow> GQLRegistry \<Rightarrow> GQLRegistry \<Rightarrow> bool" where
  "advances Q r r' \<longleftrightarrow>
     plugins r' = plugins r \<and>
     hasProcessedPlugins r' = hasProcessedPlugins r \<and>
     hasExecutedPreStart r' = hasExecutedPreStart r \<and>
     executableSchema r' = executableSchema r \<and>
     preStartFunctions r' = preStartFunctions r \<and>
     remoteSchemas r' = remoteSchemas r \<and>
     typeNames r \<subseteq> typeNames r' \<and>
     take (length (hookCalls r)) (hookCalls r') = hookCalls r \<and>
     list_all Q (newCalls r r')"

text \<open>
  The documents a hook call received. \<open>allows Q p s e hs\<close>: \<open>Q\<close> holds of every
  \<open>schemaUpdated\<close> call and of every call of a hook in \<open>hs\<close> of plugin \<open>p\<close> on the
  documents \<open>s\<close> and \<open>e\<close>.
\<close>

fun docsOf :: "hookArgs \<Rightarrow> (document \<times> document) option" where
  "docsOf NoArgs = None"
| "docsOf (Docs s e) = Some (s, e)"
| "docsOf (NodeDocs d s e) = Some (s, e)"

definition allows ::
  "(hookCall \<Rightarrow> bool) \<Rightarrow> plugin \<Rightarrow> document \<Rightarrow> document \<Rightarrow> hook list \<Rightarrow> bool" where
  "allows Q p s e hs \<longleftrightarrow>
     (\<forall>n a. Q (HookCall n SchemaUpdated a)) \<and>
     (\<forall>h a. h \<in> set hs \<longrightarrow> docsOf a = Some (s, e) \<longrightarrow> Q (HookCall (name p) h a))"

text \<open>
  The hooks of the sub-steps of the main phase: those of the first sub-step
  (\<open>processPluginTypeDefinitions\<close>) and those of the fifteen that follow.
\<close>

definition laterSubStepHooks :: "hook list" where
  "laterSubStepHooks =
     [AddTypeDefinitionExtensionsForTypeDefinition,
      AddTypeResolvers, AddTypeResolversForTypeDefinition,
      AddTypeResolverExtensionsForTypeDefinition,
      AddQueryDefinitions, AddQueryDefinitionsForTypeDefinition,
      AddQueryDefinitionExtensionsForTypeDefinition,
      AddQueryResolvers, AddQueryResolversForTypeDefinition,
      AddQueryResolverExtensionsForTypeDefinition,
      AddMutationDefinitions, AddMutationDefinitionsForTypeDefinition,
      AddMutationDefinitionExtensionsForTypeDefinition,
      AddMutationResolvers, AddMutationResolversForTypeDefinition,
      AddMutationResolverExtensionsForTypeDefinition,
      AddSubscriptionDefinitions, AddSubscriptionDefinitionsForTypeDefinition,
      AddSubscriptionDefinitionExtensionsForTypeDefinition,
      AddSubscriptionResolvers, AddSubscriptionResolversForTypeDefinition,
      AddSubscriptionResolverExtensionsForTypeDefinition]"

definition mainHooks :: "hook list" where
  "mainHooks = AddTypeDefinitions # AddTypeDefinitionsForTypeDefinition # laterSubStepHooks"

subsection \<open>Sequences of finalize operations\<close>

text \<open>
  The three finalize operations, and a sequence of calls of them, each on the registry
  that the call before left, whether that call resolved or rejected.
\<close>

datatype finalizeOp = GetFederatableSchema | GetSchema | GetExecutableSchema

fun finalize ::
  "preStartEnv \<Rightarrow> finalizeOp \<Rightarrow> GQLRegistry \<Rightarrow> (schema outcome \<times> GQLRegistry) option" where
  "finalize env GetFederatableSchema r = getFederatableSchema env r"
| "finalize env GetSchema r = getSchema env r"
| "finalize env GetExecutableSchema r = getExecutableSchema env r"

fun finalizeAll :: "preStartEnv \<Rightarrow> finalizeOp list \<Rightarrow> GQLRegistry \<Rightarrow> GQLRegistry option" where
  "finalizeAll env [] r = Some r"
| "finalizeAll env (op # ops) r =
     (case finalize env op r of
        None \<Rightarrow> None
      | Some (result, r) \<Rightarrow> finalizeAll env ops r)"

text \<open>
  What \<open>processPlugins\<close> does past its guard, before it sets the flag.
\<close>

definition pipelineBody :: "GQLRegistry \<Rightarrow> unit outcome \<times> GQLRegistry" where
  "pipelineBody r =
     validateAndFinish (getDefinitionsDocument (runPluginPhases r))
       (getExtensionDefinitionsDocument (runPluginPhases r)) (plugins (runPluginPhases r))
       (runPluginPhases r)"

subsection \<open>Remote sources\<close>

text \<open>
  The source a remote descriptor resolves to, and the wrapped sources of a list of
  descriptors, as the loop over the remote schemas builds them.
\<close>

definition resolvedSource :: "RegisterRemoteSchemaArgs \<Rightarrow> schema option" where
  "resolvedSource d =
     (case asyncSchema d of
        Some (Rejected e) \<Rightarrow> None
      | Some (Resolved supplied) \<Rightarrow> supplied
      | None \<Rightarrow> remoteSchema d)"

definition wrappedSources :: "RegisterRemoteSchemaArgs object \<Rightarrow> schema list" where
  "wrappedSources ds =
     concat (map (\<lambda>(n, d). case resolvedSource d of
                              None \<Rightarrow> []
                            | Some s \<Rightarrow> [transformSchema s (executor d) (transforms d)]) ds)"

text \<open>
  \<open>r'\<close> is \<open>r\<close> but for the remote descriptors; \<open>built r r'\<close>: but for the remote
  descriptors and the cached schema, which is all that the finalize operations write
  after the pipeline.
\<close>

definition onlyRemotes :: "GQLRegistry \<Rightarrow> GQLRegistry \<Rightarrow> bool" where
  "onlyRemotes r r' \<longleftrightarrow> (\<exists>rs. r' = r\<lparr>remoteSchemas := rs\<rparr>)"

definition built :: "GQLRegistry \<Rightarrow> GQLRegistry \<Rightarrow> bool" where
  "built r r' \<longleftrightarrow> (\<exists>rs ex. r' = r\<lparr>remoteSchemas := rs, executableSchema := ex\<rparr>)"

subsection \<open>Example plugins and registries\<close>

text \<open>
  A plugin that implements no hook, and the environment in which every pre-start
  function does nothing.
\<close>

definition noHooks :: "string \<Rightarrow> plugin" where
  "noHooks n =
     \<lparr> name = n, registry = False, clearHook = False, setInitialSchema = False,
       schemaUpdated = False, setFinalSchema = False, validateSchema = None,
       addPrePropertiesToTypeDefinition = None, addPostPropertiesToTypeDefinition = None,
       addDirectiveDefinitions = None, addDirectiveResolvers = None,
       addTypeDefinitions = None, addQueryDefinitions = None, addMutationDefinitions = None,
       addSubscriptionDefinitions = None, addTypeResolvers = None, addQueryResolvers = None,
       addMutationResolvers = None, addSubscriptionResolvers = None,
       addTypeDefinitionsForTypeDefinition = None, addQueryDefinitionsForTypeDefinition = None,
       addMutationDefinitionsForTypeDefinition = None,
       addSubscriptionDefinitionsForTypeDefinition = None,
       addTypeResolversForTypeDefinition = None, addQueryResolversForTypeDefinition = None,
       addMutationResolversForTypeDefinition = None,
       addSubscriptionResolversForTypeDefinition = None,
       addTypeDefinitionExtensionsForTypeDefinition = None,
       addQueryDefinitionExtensionsForTypeDefinition = None,
       addMutationDefinitionExtensionsForTypeDefinition = None,
       addSubscriptionDefinitionExtensionsForTypeDefinition = None,
       addTypeResolverExtensionsForTypeDefinition = None,
       addQueryResolverExtensionsForTypeDefinition = None,
       addMutationResolverExtensionsForTypeDefinition = None,
       addSubscriptionResolverExtensionsForTypeDefinition = None \<rparr>"

definition idleEnv :: preStartEnv where
  "idleEnv h r = r"

definition counting :: plugin where
  "counting = (noHooks ''counting'')\<lparr>addTypeDefinitions := Some (\<lambda>schema extensions. Some [])\<rparr>"

definition countingRegistry :: GQLRegistry where
  "countingRegistry = fst (registerPlugin newRegistry counting)"

subsection \<open>Calls of the global type-add hook\<close>

text \<open>
  The registry when the main phase starts, and the calls of the global type-add hook
  that the main phase makes from a registry for a list of plugins: one per plugin that
  has the hook, on the documents of the registry as the turns of the plugins before it
  left it.
\<close>

definition beforeMainPhase :: "GQLRegistry \<Rightarrow> GQLRegistry" where
  "beforeMainPhase r =
     foldl preProcessPlugin
       (foldl (initialNotify (getDefinitionsDocument r) (getExtensionDefinitionsDocument r))
          r (plugins r))
       (plugins r)"

fun typeAddCalls :: "GQLRegistry \<Rightarrow> plugin list \<Rightarrow> hookCall list" where
  "typeAddCalls r [] = []"
| "typeAddCalls r (p # ps) =
     (case addTypeDefinitions p of
        None \<Rightarrow> []
      | Some add \<Rightarrow>
          [HookCall (name p) AddTypeDefinitions
             (Docs (getDefinitionsDocument r) (getExtensionDefinitionsDocument r))])
     @ typeAddCalls (mainProcessPlugin r p) ps"

definition isTypeAdd :: "hookCall \<Rightarrow> bool" where
  "isTypeAdd c = (called c = AddTypeDefinitions)"


definition startedRegistry :: GQLRegistry where
  "startedRegistry = (registerPreStartFunction newRegistry 0)\<lparr>hasExecutedPreStart := True\<rparr>"

definition inventory :: RegisterRemoteSchemaArgs where
  "inventory =
     \<lparr> remoteName = ''inventory'', asyncSchema = None,
       remoteSchema = Some (Foreign ''inventory''), executor = ''http'', executable = None,
       transforms = None \<rparr>"

definition inventoryRegistry :: GQLRegistry where
  "inventoryRegistry = registerRemoteSchema newRegistry inventory"





definition strict :: plugin where
  "strict =
     (noHooks ''strict'')\<lparr>validateSchema := Some (\<lambda>schema extensions. Some ''invalid'')\<rparr>"

definition strictRegistry :: GQLRegistry where
  "strictRegistry = fst (registerPlugin newRegistry strict)"

definition impostor :: plugin where
  "impostor = (noHooks ''counting'')\<lparr>clearHook := True, setInitialSchema := True\<rparr>"

definition countingSchema :: schema where
  "countingSchema = StitchSchemas [MakeExecutableSchema [] (Some [])] [] (Some [])"

definition countingDone :: GQLRegistry where
  "countingDone =
     countingRegistry
       \<lparr> executableSchema := Some countingSchema,
         hasExecutedPreStart := True,
         hasProcessedPlugins := True,
         hookCalls := [HookCall ''counting'' AddTypeDefinitions (Docs [] [])] \<rparr>"

definition faulty :: plugin where
  "faulty =
     (noHooks ''faulty'')
       \<lparr> validateSchema := Some (\<lambda>schema extensions. Some ''invalid''),
         addTypeDefinitions := Some (\<lambda>schema extensions. Some []) \<rparr>"

definition faultyRegistry :: GQLRegistry where
  "faultyRegistry = fst (registerPlugin newRegistry faulty)"

definition oneBook :: node where
  "oneBook = Node FIELD_DEFINITION ''oneBook'' [] ''(id: ID!): Book''"

definition bookArgs :: RegisterTypeArgs where
  "bookArgs =
     \<lparr> typeDefinitionsArg = Some [bookV1],
       queryDefinitionsArg =
         Some [authorV1, Node OBJECT_TYPE_DEFINITION ''Query'' [oneBook] [], bookV2],
       mutationDefinitionsArg = Some [Node OBJECT_TYPE_DEFINITION ''Query'' [oneBook] []],
       subscriptionDefinitionsArg = None,
       typeResolversArg = None, queryResolversArg = None, mutationResolversArg = None,
       subscriptionResolversArg = None \<rparr>"

definition bookRegistry :: GQLRegistry where
  "bookRegistry = registerType newRegistry bookArgs"

section \<open>Properties\<close>

subsection \<open>Merging: eviction and re-appending\<close>

lemma removeFirst_Nil: "removeFirst P [] = []"
  by (simp add: removeFirst_def)

lemma removeFirst_Cons:
  "removeFirst P (x # xs) = (if P x then xs else x # removeFirst P xs)"
  by (simp add: removeFirst_def splice1_def split: option.splits)

lemma removeFirst_filter:
  "distinct (map f xs) \<Longrightarrow> removeFirst (\<lambda>x. f x = k) xs = filter (\<lambda>x. f x \<noteq> k) xs"
proof (induction xs)
  case Nil
  show ?case by (simp add: removeFirst_Nil)
next
  case (Cons x xs)
  have "f x = k \<Longrightarrow> filter (\<lambda>y. f y \<noteq> k) xs = xs"
    using Cons.prems by (intro filter_True) (auto simp: image_iff)
  with Cons show ?case by (simp add: removeFirst_Cons)
qed

lemma upsert_filter:
  "distinct (map nameValue defs) \<Longrightarrow>
   upsert defs new = filter (\<lambda>def. nameValue def \<noteq> nameValue new) defs @ [new]"
  using removeFirst_filter [of nameValue defs "nameValue new"]
  by (simp add: upsert_def removeFirst_def)

lemma set_lastByName: "nameValue ` set (lastByName ds) = nameValue ` set ds"
  by (induction ds) (auto simp: image_iff)

lemma distinct_lastByName: "distinct (map nameValue (lastByName ds))"
proof (induction ds)
  case Nil show ?case by simp
next
  case (Cons d ds)
  then show ?case using set_lastByName [of ds] by (auto simp: image_iff)
qed

lemma foldl_upsert:
  "distinct (map nameValue defs) \<Longrightarrow>
   foldl upsert defs incoming =
     filter (\<lambda>def. nameValue def \<notin> set (map nameValue incoming)) defs @ lastByName incoming"
proof (induction incoming arbitrary: defs)
  case Nil
  show ?case by simp
next
  case (Cons new incoming)
  let ?defs = "filter (\<lambda>def. nameValue def \<noteq> nameValue new) defs @ [new]"
  have d: "distinct (map nameValue ?defs)"
    using Cons.prems by (auto simp: distinct_map_filter)
  have "foldl upsert defs (new # incoming) = foldl upsert ?defs incoming"
    using Cons.prems by (simp add: upsert_filter)
  also have "\<dots> = filter (\<lambda>def. nameValue def \<notin> set (map nameValue incoming)) ?defs
                    @ lastByName incoming"
    by (rule Cons.IH [OF d])
  also have "\<dots> = filter (\<lambda>def. nameValue def \<notin> set (map nameValue (new # incoming))) defs
                    @ lastByName (new # incoming)"
    by (auto intro: filter_cong)
  finally show ?case .
qed

lemma mergeIncomingDirectives_eq:
  "mergeIncomingDirectives r ds =
     r\<lparr>directiveDefinitions :=
         foldl upsert (directiveDefinitions r) (filter (\<lambda>new. kind new = DIRECTIVE_DEFINITION) ds)\<rparr>"
  unfolding mergeIncomingDirectives_def by (induction ds arbitrary: r) simp_all

lemma mergeIncomingTypes_eq:
  "mergeIncomingTypes r ds =
     r\<lparr>typeDefinitions := foldl upsert (typeDefinitions r) (filter isTypeDefinitionNode ds)\<rparr>"
  unfolding mergeIncomingTypes_def by (induction ds arbitrary: r) simp_all

lemma mergeIncomingExtensionTypes_eq:
  "mergeIncomingExtensionTypes r ds =
     r\<lparr>extensionTypeDefinitions :=
         foldl upsert (extensionTypeDefinitions r) (filter isTypeExtensionNode ds),
       typeDefinitions :=
         foldl upsert (typeDefinitions r)
           (filter (\<lambda>new. \<not> isTypeExtensionNode new \<and> isTypeDefinitionNode new) ds)\<rparr>"
  unfolding mergeIncomingExtensionTypes_def by (induction ds arbitrary: r) simp_all

lemma mergeIncomingQueries_eq:
  "mergeIncomingQueries r ds =
     r\<lparr>queryDefinitions :=
         foldl upsert (queryDefinitions r) (filter (\<lambda>new. kind new = FIELD_DEFINITION) ds)\<rparr>"
  unfolding mergeIncomingQueries_def by (induction ds arbitrary: r) simp_all

lemma mergeIncomingExtensionQueries_eq:
  "mergeIncomingExtensionQueries r ds =
     r\<lparr>extensionQueryDefinitions :=
         foldl upsert (extensionQueryDefinitions r)
           (filter (\<lambda>new. kind new = FIELD_DEFINITION) ds)\<rparr>"
  unfolding mergeIncomingExtensionQueries_def by (induction ds arbitrary: r) simp_all

lemma mergeIncomingMutations_eq:
  "mergeIncomingMutations r ds =
     r\<lparr>mutationDefinitions :=
         foldl upsert (mutationDefinitions r) (filter (\<lambda>new. kind new = FIELD_DEFINITION) ds)\<rparr>"
  unfolding mergeIncomingMutations_def by (induction ds arbitrary: r) simp_all

lemma mergeIncomingExtensionMutations_eq:
  "mergeIncomingExtensionMutations r ds =
     r\<lparr>extensionMutationDefinitions :=
         foldl upsert (extensionMutationDefinitions r)
           (filter (\<lambda>new. kind new = FIELD_DEFINITION) ds)\<rparr>"
  unfolding mergeIncomingExtensionMutations_def by (induction ds arbitrary: r) simp_all

lemma mergeIncomingSubscriptions_eq:
  "mergeIncomingSubscriptions r ds =
     r\<lparr>subscriptionDefinitions :=
         foldl upsert (subscriptionDefinitions r)
           (filter (\<lambda>new. kind new = FIELD_DEFINITION) ds)\<rparr>"
  unfolding mergeIncomingSubscriptions_def by (induction ds arbitrary: r) simp_all

lemma mergeIncomingExtensionSubscriptions_eq:
  "mergeIncomingExtensionSubscriptions r ds =
     r\<lparr>extensionSubscriptionDefinitions :=
         foldl upsert (extensionSubscriptionDefinitions r)
           (filter (\<lambda>new. kind new = FIELD_DEFINITION) ds)\<rparr>"
  unfolding mergeIncomingExtensionSubscriptions_def by (induction ds arbitrary: r) simp_all

lemmas mergeIncoming_eqs =
  mergeIncomingDirectives_eq mergeIncomingTypes_eq mergeIncomingExtensionTypes_eq
  mergeIncomingQueries_eq mergeIncomingExtensionQueries_eq mergeIncomingMutations_eq
  mergeIncomingExtensionMutations_eq mergeIncomingSubscriptions_eq
  mergeIncomingExtensionSubscriptions_eq

lemma store_mergeIncoming:
  "store c (mergeIncoming r m) = foldl upsert (store c r) (arriving c m)"
  by (cases c; cases m) (simp_all add: mergeIncoming_eqs)

lemma store_foldl_mergeIncoming:
  "store c (foldl mergeIncoming r ms) =
     foldl upsert (store c r) (concat (map (arriving c) ms))"
  by (induction ms arbitrary: r) (simp_all add: store_mergeIncoming)

text \<open>
  C3: the new registry has unique names in each of its nine declaration sequences, and
  from a registry with unique names any sequence of merges (each through one of the
  \<open>mergeIncoming...\<close> methods) leaves the names unique in every sequence. The sequence
  of category \<open>c\<close> is then: the entries that were there and whose name did not arrive,
  in their old order, followed by the arrived declarations that the category accepts,
  one per name, each at the position of the last arrival of its name. So an arriving
  name that exists evicts the old entry and is appended at the end.
\<close>

theorem merges_keep_names_unique:
  "namesUnique newRegistry \<and>
   (namesUnique r \<longrightarrow>
      namesUnique (foldl mergeIncoming r ms) \<and>
      store c (foldl mergeIncoming r ms) =
        filter (\<lambda>def. nameValue def \<notin> set (map nameValue (concat (map (arriving c) ms))))
          (store c r)
        @ lastByName (concat (map (arriving c) ms)))"
proof -
  have new: "namesUnique newRegistry"
    by (simp add: namesUnique_def newRegistry_def)
  have eq: "store c' (foldl mergeIncoming r ms) =
        filter (\<lambda>def. nameValue def \<notin> set (map nameValue (concat (map (arriving c') ms))))
          (store c' r)
        @ lastByName (concat (map (arriving c') ms))"
    if "distinct (map nameValue (store c' r))" for c'
    unfolding store_foldl_mergeIncoming by (rule foldl_upsert [OF that])
  have dist: "distinct (map nameValue (store c' (foldl mergeIncoming r ms)))"
    if d: "distinct (map nameValue (store c' r))" for c'
  proof -
    let ?in = "concat (map (arriving c') ms)"
    have "distinct (map nameValue (filter (\<lambda>def. nameValue def \<notin> set (map nameValue ?in)) (store c' r)))"
      using d by (rule distinct_map_filter)
    moreover have "distinct (map nameValue (lastByName ?in))"
      by (rule distinct_lastByName)
    moreover have "nameValue ` set (lastByName ?in) = nameValue ` set ?in"
      by (rule set_lastByName)
    ultimately show ?thesis
      unfolding eq [OF d] by (auto simp: image_iff)
  qed
  have "namesUnique (foldl mergeIncoming r ms)" if "namesUnique r"
    using that dist unfolding namesUnique_def list_all_iff by blast
  moreover have "distinct (map nameValue (store c r))" if "namesUnique r"
    using that unfolding namesUnique_def list_all_iff by (cases c) simp_all
  ultimately show ?thesis using new eq by blast
qed

theorem merges_keep_names_unique_witness:
  "namesUnique newRegistry \<and>
   namesUnique (foldl mergeIncoming newRegistry
      [IncomingTypes [bookV1, authorV1], IncomingTypes [bookV2]]) \<and>
   store Type (foldl mergeIncoming newRegistry
      [IncomingTypes [bookV1, authorV1], IncomingTypes [bookV2]]) = [authorV1, bookV2]"
  using merges_keep_names_unique
    [of newRegistry "[IncomingTypes [bookV1, authorV1], IncomingTypes [bookV2]]" Type]
  by (simp add: newRegistry_def isTypeDefinitionNode_def typeDefinitionTypes_def
      bookV1_def bookV2_def authorV1_def)

subsection \<open>Order of registration\<close>

lemma documentDefinitions_None [simp]: "documentDefinitions c None = []"
  by (simp add: documentDefinitions_def)

lemma mergeNil [simp]:
  "mergeIncomingQueries r [] = r" "mergeIncomingMutations r [] = r"
  "mergeIncomingSubscriptions r [] = r"
  by (simp_all add: mergeIncomingQueries_def mergeIncomingMutations_def
      mergeIncomingSubscriptions_def)

lemma typeDefinitions_registerType_typesOnly:
  "typeDefinitions (registerType r (typesOnly doc)) =
     foldl upsert (typeDefinitions r) (filter isTypeDefinitionNode doc)"
  by (simp add: registerType_def typesOnly_def assignAll_def mergeIncomingTypes_eq)

text \<open>
  C4, as stated, fails: registering \<open>Book\<close>, \<open>Book\<close> again and then \<open>Author\<close> leaves
  \<open>Book\<close> before \<open>Author\<close>, because \<open>Author\<close> is appended after the re-registered
  \<open>Book\<close>.
\<close>

theorem reregistering_then_registering_counterexample:
  "map nameValue (typeDefinitions
     (registerType (registerType (registerType newRegistry (typesOnly [bookV1]))
        (typesOnly [bookV2])) (typesOnly [authorV1]))) = [''Book'', ''Author''] \<and>
   map nameValue (typeDefinitions
     (registerType (registerType (registerType newRegistry (typesOnly [bookV1]))
        (typesOnly [bookV2])) (typesOnly [authorV1]))) \<noteq> [''Author'', ''Book'']"
  by (simp add: typeDefinitions_registerType_typesOnly newRegistry_def bookV1_def bookV2_def
      authorV1_def isTypeDefinitionNode_def typeDefinitionTypes_def upsert_def splice1_def)

text \<open>
  C4, amended: registering type \<open>A\<close>, then type \<open>B\<close>, then \<open>A\<close> again leaves the type
  sequence ending in \<open>[B, A]\<close>, the re-registered \<open>A\<close> having moved to the tail rather
  than being updated in place; registering \<open>A\<close>, \<open>A\<close> again and then \<open>B\<close> leaves it
  ending in \<open>[A, B]\<close>. In both cases the entries before are the other types, in their
  old order.
\<close>

theorem reregistration_moves_to_tail:
  assumes "distinct (map nameValue (typeDefinitions r))"
    and "isTypeDefinitionNode a" and "isTypeDefinitionNode a'" and "isTypeDefinitionNode b"
    and "nameValue a' = nameValue a" and "nameValue b \<noteq> nameValue a"
  shows "typeDefinitions
           (registerType (registerType (registerType r (typesOnly [a])) (typesOnly [b]))
              (typesOnly [a'])) =
         filter (\<lambda>def. nameValue def \<noteq> nameValue a \<and> nameValue def \<noteq> nameValue b)
           (typeDefinitions r) @ [b, a'] \<and>
         typeDefinitions
           (registerType (registerType (registerType r (typesOnly [a])) (typesOnly [a']))
              (typesOnly [b])) =
         filter (\<lambda>def. nameValue def \<noteq> nameValue a \<and> nameValue def \<noteq> nameValue b)
           (typeDefinitions r) @ [a', b]"
proof -
  let ?tds = "typeDefinitions r"
  have aba: "foldl upsert ?tds [a, b, a'] =
      filter (\<lambda>def. nameValue def \<notin> set (map nameValue [a, b, a'])) ?tds
      @ lastByName [a, b, a']"
    by (rule foldl_upsert [OF assms(1)])
  have aab: "foldl upsert ?tds [a, a', b] =
      filter (\<lambda>def. nameValue def \<notin> set (map nameValue [a, a', b])) ?tds
      @ lastByName [a, a', b]"
    by (rule foldl_upsert [OF assms(1)])
  have f: "filter (\<lambda>def. nameValue def \<notin> set (map nameValue [a, b, a'])) ?tds =
           filter (\<lambda>def. nameValue def \<noteq> nameValue a \<and> nameValue def \<noteq> nameValue b) ?tds"
          "filter (\<lambda>def. nameValue def \<notin> set (map nameValue [a, a', b])) ?tds =
           filter (\<lambda>def. nameValue def \<noteq> nameValue a \<and> nameValue def \<noteq> nameValue b) ?tds"
    using assms(5) by (auto intro: filter_cong)
  have l: "lastByName [a, b, a'] = [b, a']" "lastByName [a, a', b] = [a', b]"
    using assms(5,6) by auto
  show ?thesis
    using aba aab assms(2,3,4) unfolding f l
    by (simp add: typeDefinitions_registerType_typesOnly)
qed

subsection \<open>Containers of the assembled documents\<close>

lemma getDefinitionsDocument_eq:
  "getDefinitionsDocument r =
     typeDefinitions r @ directiveDefinitions r @
     (if queryDefinitions r = [] then []
      else [Node OBJECT_TYPE_DEFINITION ''Query'' (queryDefinitions r) []]) @
     (if mutationDefinitions r = [] then []
      else [Node OBJECT_TYPE_DEFINITION ''Mutation'' (mutationDefinitions r) []]) @
     (if subscriptionDefinitions r = [] then []
      else [Node OBJECT_TYPE_DEFINITION ''Subscription'' (subscriptionDefinitions r) []])"
  by (simp add: getDefinitionsDocument_def)

lemma getExtensionDefinitionsDocument_eq:
  "getExtensionDefinitionsDocument r =
     extensionTypeDefinitions r @ directiveDefinitions r @
     (if extensionQueryDefinitions r = [] then []
      else [Node OBJECT_TYPE_EXTENSION ''Query'' (extensionQueryDefinitions r) []]) @
     (if extensionMutationDefinitions r = [] then []
      else [Node OBJECT_TYPE_EXTENSION ''Mutation'' (extensionMutationDefinitions r) []]) @
     (if extensionSubscriptionDefinitions r = [] then []
      else [Node OBJECT_TYPE_EXTENSION ''Subscription''
              (extensionSubscriptionDefinitions r) []])"
  by (simp add: getExtensionDefinitionsDocument_def)

text \<open>
  C9: the base document is the type declarations, the directive declarations and then
  the synthesized containers, and likewise the extension document. The container of a
  category is among the synthesized ones exactly when the field sequence of the
  category is not empty, and then it holds that sequence; every synthesized container
  is named \<open>Query\<close>, \<open>Mutation\<close> or \<open>Subscription\<close> and has fields.
\<close>

theorem container_only_for_nonempty_fields:
  "getDefinitionsDocument r = typeDefinitions r @ directiveDefinitions r @ synthesized r \<and>
   getExtensionDefinitionsDocument r =
     extensionTypeDefinitions r @ directiveDefinitions r @ synthesizedExtensions r \<and>
   (Node OBJECT_TYPE_DEFINITION ''Query'' fs [] \<in> set (synthesized r) \<longleftrightarrow>
      fs = queryDefinitions r \<and> queryDefinitions r \<noteq> []) \<and>
   (Node OBJECT_TYPE_DEFINITION ''Mutation'' fs [] \<in> set (synthesized r) \<longleftrightarrow>
      fs = mutationDefinitions r \<and> mutationDefinitions r \<noteq> []) \<and>
   (Node OBJECT_TYPE_DEFINITION ''Subscription'' fs [] \<in> set (synthesized r) \<longleftrightarrow>
      fs = subscriptionDefinitions r \<and> subscriptionDefinitions r \<noteq> []) \<and>
   (Node OBJECT_TYPE_EXTENSION ''Query'' fs [] \<in> set (synthesizedExtensions r) \<longleftrightarrow>
      fs = extensionQueryDefinitions r \<and> extensionQueryDefinitions r \<noteq> []) \<and>
   (Node OBJECT_TYPE_EXTENSION ''Mutation'' fs [] \<in> set (synthesizedExtensions r) \<longleftrightarrow>
      fs = extensionMutationDefinitions r \<and> extensionMutationDefinitions r \<noteq> []) \<and>
   (Node OBJECT_TYPE_EXTENSION ''Subscription'' fs [] \<in> set (synthesizedExtensions r) \<longleftrightarrow>
      fs = extensionSubscriptionDefinitions r \<and> extensionSubscriptionDefinitions r \<noteq> []) \<and>
   (\<forall>d \<in> set (synthesized r) \<union> set (synthesizedExtensions r).
      nameValue d \<in> {''Query'', ''Mutation'', ''Subscription''} \<and> node.fields d \<noteq> [])"
  unfolding synthesized_def synthesizedExtensions_def
    getDefinitionsDocument_eq getExtensionDefinitionsDocument_eq
  by auto

subsection \<open>Fields registered by registerType\<close>







subsection \<open>What a step of the pipeline leaves alone\<close>

lemma advances_refl: "advances Q r r"
  by (simp add: advances_def newCalls_def)

lemma hookCalls_advances:
  "advances Q r r' \<Longrightarrow> hookCalls r' = hookCalls r @ newCalls r r'"
  unfolding advances_def newCalls_def by (metis append_take_drop_id)

lemma newCalls_trans:
  assumes "advances Q r r'" and "advances Q' r' r''"
  shows "newCalls r r'' = newCalls r r' @ newCalls r' r''"
proof -
  have "hookCalls r'' = hookCalls r @ newCalls r r' @ newCalls r' r''"
    using hookCalls_advances [OF assms(1)] hookCalls_advances [OF assms(2)] by simp
  then show ?thesis by (simp add: newCalls_def [of r r''])
qed

lemma advances_trans:
  assumes "advances Q r r'" and "advances Q r' r''"
  shows "advances Q r r''"
proof -
  have n: "newCalls r r'' = newCalls r r' @ newCalls r' r''"
    using assms by (rule newCalls_trans)
  have h: "hookCalls r'' = hookCalls r @ newCalls r r''"
    using hookCalls_advances [OF assms(1)] hookCalls_advances [OF assms(2)] n by simp
  have "take (length (hookCalls r)) (hookCalls r'') = hookCalls r"
    by (subst h) simp
  moreover have "list_all Q (newCalls r r'')"
    using assms unfolding n by (simp add: advances_def)
  ultimately show ?thesis
    using assms unfolding advances_def by auto
qed

lemma advances_mono:
  "advances Q r r' \<Longrightarrow> (\<And>c. Q c \<Longrightarrow> Q' c) \<Longrightarrow> advances Q' r r'"
  unfolding advances_def by (auto simp: list_all_iff)

lemma advances_foldl:
  assumes "\<And>r x. x \<in> set xs \<Longrightarrow> advances Q r (f r x)"
  shows "advances Q r (foldl f r xs)"
  using assms
proof (induction xs arbitrary: r)
  case Nil
  show ?case by (simp add: advances_refl)
next
  case (Cons x xs)
  have "advances Q r (f r x)" by (rule Cons.prems) simp
  moreover have "advances Q (f r x) (foldl f (f r x) xs)"
    by (rule Cons.IH) (simp add: Cons.prems)
  ultimately show ?case by (simp add: advances_trans)
qed

lemma advances_call:
  "Q c \<Longrightarrow> advances Q r (r\<lparr>hookCalls := hookCalls r @ [c]\<rparr>)"
  by (simp add: advances_def newCalls_def typeNames_def)

lemma advances_silent:
  assumes "plugins r' = plugins r" "hasProcessedPlugins r' = hasProcessedPlugins r"
    "hasExecutedPreStart r' = hasExecutedPreStart r" "executableSchema r' = executableSchema r"
    "preStartFunctions r' = preStartFunctions r" "remoteSchemas r' = remoteSchemas r"
    "typeNames r \<subseteq> typeNames r'" "hookCalls r' = hookCalls r"
  shows "advances Q r r'"
  using assms by (simp add: advances_def newCalls_def)

lemma names_removeFirst:
  "insert k (f ` set (removeFirst (\<lambda>x. f x = k) xs)) = insert k (f ` set xs)"
  by (induction xs) (auto simp: removeFirst_Nil removeFirst_Cons)

lemma names_upsert:
  "nameValue ` set (upsert defs new) = insert (nameValue new) (nameValue ` set defs)"
  using names_removeFirst [of "nameValue new" nameValue defs]
  by (simp add: upsert_def removeFirst_def)

lemma names_foldl_upsert:
  "nameValue ` set (foldl upsert defs incoming) =
     nameValue ` set defs \<union> nameValue ` set incoming"
proof (induction incoming arbitrary: defs)
  case Nil
  show ?case by simp
next
  case (Cons new incoming)
  show ?case by (simp add: Cons.IH names_upsert)
qed


lemma advances_merges:
  "advances Q r (mergeIncomingDirectives r ds)"
  "advances Q r (mergeIncomingTypes r ds)"
  "advances Q r (mergeIncomingExtensionTypes r ds)"
  "advances Q r (mergeIncomingQueries r ds)"
  "advances Q r (mergeIncomingExtensionQueries r ds)"
  "advances Q r (mergeIncomingMutations r ds)"
  "advances Q r (mergeIncomingExtensionMutations r ds)"
  "advances Q r (mergeIncomingSubscriptions r ds)"
  "advances Q r (mergeIncomingExtensionSubscriptions r ds)"
  by (rule advances_silent;
      simp add: mergeIncoming_eqs typeNames_def names_foldl_upsert del: set_filter; fail)+

lemma allows_mono: "allows Q p s e hs \<Longrightarrow> set hs' \<subseteq> set hs \<Longrightarrow> allows Q p s e hs'"
  unfolding allows_def by blast

lemma advances_notify:
  "(present \<Longrightarrow> Q (HookCall (name p) h (Docs s e))) \<Longrightarrow> advances Q r (notify p h present s e r)"
  by (simp add: notify_def advances_call advances_refl)

lemma advances_updatePluginSchemas:
  assumes "\<And>n a. Q (HookCall n SchemaUpdated a)"
  shows "advances Q r (updatePluginSchemas r)"
  unfolding updatePluginSchemas_def
  by (rule advances_foldl) (simp add: advances_notify assms)

lemma advances_callGlobal:
  "Q (HookCall (name p) h (Docs s e)) \<Longrightarrow> advances Q r (snd (callGlobal p h f s e r))"
  by (cases f) (simp_all add: callGlobal_def advances_call advances_refl)

lemma advances_callNode:
  "Q (HookCall (name p) h (NodeDocs d s e)) \<Longrightarrow> advances Q r (snd (callNode p h f d s e r))"
  by (cases f) (simp_all add: callNode_def advances_call advances_refl)

lemma advances_offerGlobal:
  assumes before: "advances Q r (fst state)"
    and call: "Q (HookCall (name p) h (Docs s e))"
    and merge: "\<And>r x. advances Q r (merge r x)"
  shows "advances Q r (fst (offerGlobal p h f merge s e state))"
proof -
  obtain res r1 where c: "callGlobal p h f s e (fst state) = (res, r1)"
    by (cases "callGlobal p h f s e (fst state)")
  have "advances Q (fst state) r1"
    using advances_callGlobal [of Q p h s e "fst state" f] call c by simp
  then have r1: "advances Q r r1" using before advances_trans by blast
  show ?thesis
  proof (cases res)
    case None
    with c r1 show ?thesis by (simp add: offerGlobal_def)
  next
    case (Some x)
    have "advances Q r (merge r1 x)" using r1 merge advances_trans by blast
    with c Some show ?thesis by (simp add: offerGlobal_def)
  qed
qed

lemma advances_offerEach_loop:
  assumes call: "\<And>d. Q (HookCall (name p) h (NodeDocs d s e))"
    and merge: "\<And>r x. advances Q r (merge r x)"
  shows "advances Q r (fst state) \<Longrightarrow>
         advances Q r (fst (foldl (\<lambda>state typeDefinition.
           case callNode p h f typeDefinition s e (fst state) of
             (None, r) \<Rightarrow> (r, snd state)
           | (Some contribution, r) \<Rightarrow> (merge r contribution, True)) state ds))"
proof (induction ds arbitrary: state)
  case Nil
  then show ?case by simp
next
  case (Cons d ds)
  obtain res r1 where c: "callNode p h f d s e (fst state) = (res, r1)"
    by (cases "callNode p h f d s e (fst state)")
  have "advances Q (fst state) r1"
    using advances_callNode [of Q p h d s e "fst state" f] call c by simp
  then have r1: "advances Q r r1" using Cons.prems advances_trans by blast
  show ?case
  proof (cases res)
    case None
    have "advances Q r (fst (r1, snd state))" using r1 by simp
    from Cons.IH [OF this] c None show ?thesis by simp
  next
    case (Some x)
    have "advances Q r (fst (merge r1 x, True))"
      using r1 merge advances_trans by fastforce
    from Cons.IH [OF this] c Some show ?thesis by simp
  qed
qed

lemma advances_offerEach:
  assumes "advances Q r (fst state)"
    and "\<And>d. Q (HookCall (name p) h (NodeDocs d s e))"
    and "\<And>r x. advances Q r (merge r x)"
  shows "advances Q r (fst (offerEach p h f merge s e state))"
  unfolding offerEach_def
  by (rule advances_offerEach_loop [where Q=Q and p=p and h=h and s=s and e=e])
     (simp_all add: assms)

lemma advances_rebroadcast:
  assumes "advances Q r (fst state)" and "\<And>n a. Q (HookCall n SchemaUpdated a)"
  shows "advances Q r (rebroadcast state)"
  using assms(1) advances_updatePluginSchemas [of Q "fst state", OF assms(2)] advances_trans
  by (auto simp: rebroadcast_def)

lemma advances_collectEach_loop:
  assumes call: "\<And>d. Q (HookCall (name p) h (NodeDocs d s e))"
  shows "advances Q r (snd state) \<Longrightarrow>
         advances Q r (snd (foldl (\<lambda>(newTypeDefinitions, r) typeDefinition.
           case callNode p h f typeDefinition s e r of
             (None, r) \<Rightarrow> (newTypeDefinitions, r)
           | (Some updatedTypeDefiniton, r) \<Rightarrow>
               (newTypeDefinitions @ [updatedTypeDefiniton], r)) state ds))"
proof (induction ds arbitrary: state)
  case Nil
  then show ?case by simp
next
  case (Cons d ds)
  obtain acc r0 where st: "state = (acc, r0)" by (cases state)
  obtain res r1 where c: "callNode p h f d s e r0 = (res, r1)"
    by (cases "callNode p h f d s e r0")
  have "advances Q r0 r1"
    using advances_callNode [of Q p h d s e r0 f] call c by simp
  then have r1: "advances Q r r1" using Cons.prems st advances_trans by fastforce
  show ?case
  proof (cases res)
    case None
    have "advances Q r (snd (acc, r1))" using r1 by simp
    from Cons.IH [OF this] c None st show ?thesis by simp
  next
    case (Some x)
    have "advances Q r (snd (acc @ [x], r1))" using r1 by simp
    from Cons.IH [OF this] c Some st show ?thesis by simp
  qed
qed

lemma advances_collectEach:
  assumes "\<And>d. Q (HookCall (name p) h (NodeDocs d s e))"
  shows "advances Q r (snd (collectEach p h f s e r))"
  unfolding collectEach_def
  by (rule advances_collectEach_loop [where Q=Q and p=p and h=h and s=s and e=e])
     (simp_all add: assms advances_refl)

lemma advances_start: "advances Q r (fst (r, b))"
  by (simp add: advances_refl)

lemma advances_resolvers:
  "advances Q r (r\<lparr>directiveResolvers := a\<rparr>)"
  "advances Q r (r\<lparr>typeResolvers := b\<rparr>)"
  "advances Q r (r\<lparr>queryResolvers := b\<rparr>)"
  "advances Q r (r\<lparr>mutationResolvers := b\<rparr>)"
  "advances Q r (r\<lparr>subscriptionResolvers := b\<rparr>)"
  "advances Q r (r\<lparr>extensionTypeResolvers := b\<rparr>)"
  "advances Q r (r\<lparr>extensionQueryResolvers := b\<rparr>)"
  "advances Q r (r\<lparr>extensionMutationResolvers := b\<rparr>)"
  "advances Q r (r\<lparr>extensionSubscriptionResolvers := b\<rparr>)"
  by (rule advances_silent; simp add: typeNames_def; fail)+

lemmas advances_intros =
  advances_rebroadcast advances_offerEach advances_offerGlobal advances_start
  advances_merges advances_resolvers

lemma allowsD:
  "allows Q p s e hs \<Longrightarrow> Q (HookCall n SchemaUpdated a)"
  "allows Q p s e hs \<Longrightarrow> h \<in> set hs \<Longrightarrow> Q (HookCall (name p) h (Docs s e))"
  "allows Q p s e hs \<Longrightarrow> h \<in> set hs \<Longrightarrow> Q (HookCall (name p) h (NodeDocs d s e))"
  unfolding allows_def by simp_all

lemma advances_processPluginTypeDefinitions:
  assumes "allows Q p s e [AddTypeDefinitions, AddTypeDefinitionsForTypeDefinition]"
  shows "advances Q r (processPluginTypeDefinitions s e p r)"
  unfolding processPluginTypeDefinitions_def
  by (intro advances_intros allowsD [OF assms]) simp_all

lemma advances_processPluginTypeExtensionDefinitions:
  assumes "allows Q p s e [AddTypeDefinitionExtensionsForTypeDefinition]"
  shows "advances Q r (processPluginTypeExtensionDefinitions s e p r)"
  unfolding processPluginTypeExtensionDefinitions_def
  by (intro advances_intros allowsD [OF assms]) simp_all

lemma advances_processPluginTypeResolvers:
  assumes "allows Q p s e [AddTypeResolvers, AddTypeResolversForTypeDefinition]"
  shows "advances Q r (processPluginTypeResolvers s e p r)"
  unfolding processPluginTypeResolvers_def
  by (intro advances_intros allowsD [OF assms]) simp_all

lemma advances_processPluginTypeExtensionResolvers:
  assumes "allows Q p s e [AddTypeResolverExtensionsForTypeDefinition]"
  shows "advances Q r (processPluginTypeExtensionResolvers s e p r)"
  unfolding processPluginTypeExtensionResolvers_def
  by (intro advances_intros allowsD [OF assms]) simp_all

lemma advances_processPluginQueryDefinitions:
  assumes "allows Q p s e [AddQueryDefinitions, AddQueryDefinitionsForTypeDefinition]"
  shows "advances Q r (processPluginQueryDefinitions s e p r)"
  unfolding processPluginQueryDefinitions_def
  by (intro advances_intros allowsD [OF assms]) simp_all

lemma advances_processPluginQueryExtensionDefinitions:
  assumes "allows Q p s e [AddQueryDefinitionExtensionsForTypeDefinition]"
  shows "advances Q r (processPluginQueryExtensionDefinitions s e p r)"
  unfolding processPluginQueryExtensionDefinitions_def
  by (intro advances_intros allowsD [OF assms]) simp_all

lemma advances_processPluginQueryResolvers:
  assumes "allows Q p s e [AddQueryResolvers, AddQueryResolversForTypeDefinition]"
  shows "advances Q r (processPluginQueryResolvers s e p r)"
  unfolding processPluginQueryResolvers_def
  by (intro advances_intros allowsD [OF assms]) simp_all

lemma advances_processPluginQueryExtensionResolvers:
  assumes "allows Q p s e [AddQueryResolverExtensionsForTypeDefinition]"
  shows "advances Q r (processPluginQueryExtensionResolvers s e p r)"
  unfolding processPluginQueryExtensionResolvers_def
  by (intro advances_intros allowsD [OF assms]) simp_all

lemma advances_processPluginMutationDefinitions:
  assumes "allows Q p s e [AddMutationDefinitions, AddMutationDefinitionsForTypeDefinition]"
  shows "advances Q r (processPluginMutationDefinitions s e p r)"
  unfolding processPluginMutationDefinitions_def
  by (intro advances_intros allowsD [OF assms]) simp_all

lemma advances_processPluginMutationExtensionDefinitions:
  assumes "allows Q p s e [AddMutationDefinitionExtensionsForTypeDefinition]"
  shows "advances Q r (processPluginMutationExtensionDefinitions s e p r)"
  unfolding processPluginMutationExtensionDefinitions_def
  by (intro advances_intros allowsD [OF assms]) simp_all

lemma advances_processPluginMutationResolvers:
  assumes "allows Q p s e [AddMutationResolvers, AddMutationResolversForTypeDefinition]"
  shows "advances Q r (processPluginMutationResolvers s e p r)"
  unfolding processPluginMutationResolvers_def
  by (intro advances_intros allowsD [OF assms]) simp_all

lemma advances_processPluginMutationExtensionResolvers:
  assumes "allows Q p s e [AddMutationResolverExtensionsForTypeDefinition]"
  shows "advances Q r (processPluginMutationExtensionResolvers s e p r)"
  unfolding processPluginMutationExtensionResolvers_def
  by (intro advances_intros allowsD [OF assms]) simp_all

lemma advances_processPluginSubscriptionDefinitions:
  assumes "allows Q p s e [AddSubscriptionDefinitions, AddSubscriptionDefinitionsForTypeDefinition]"
  shows "advances Q r (processPluginSubscriptionDefinitions s e p r)"
  unfolding processPluginSubscriptionDefinitions_def
  by (intro advances_intros allowsD [OF assms]) simp_all

lemma advances_processPluginSubscriptionExtensionDefinitions:
  assumes "allows Q p s e [AddSubscriptionDefinitionExtensionsForTypeDefinition]"
  shows "advances Q r (processPluginSubscriptionExtensionDefinitions s e p r)"
  unfolding processPluginSubscriptionExtensionDefinitions_def
  by (intro advances_intros allowsD [OF assms]) simp_all

lemma advances_processPluginSubscriptionResolvers:
  assumes "allows Q p s e [AddSubscriptionResolvers, AddSubscriptionResolversForTypeDefinition]"
  shows "advances Q r (processPluginSubscriptionResolvers s e p r)"
  unfolding processPluginSubscriptionResolvers_def
  by (intro advances_intros allowsD [OF assms]) simp_all

lemma advances_processPluginSubscriptionExtensionResolvers:
  assumes "allows Q p s e [AddSubscriptionResolverExtensionsForTypeDefinition]"
  shows "advances Q r (processPluginSubscriptionExtensionResolvers s e p r)"
  unfolding processPluginSubscriptionExtensionResolvers_def
  by (intro advances_intros allowsD [OF assms]) simp_all

lemma advances_processPluginDirectiveDefinitions:
  assumes "allows Q p s e [AddDirectiveDefinitions]"
  shows "advances Q r (processPluginDirectiveDefinitions s e p r)"
  unfolding processPluginDirectiveDefinitions_def
  by (intro advances_intros allowsD [OF assms]) simp_all

lemma advances_processPluginDirectiveResolvers:
  assumes "allows Q p s e [AddDirectiveResolvers]"
  shows "advances Q r (processPluginDirectiveResolvers s e p r)"
  unfolding processPluginDirectiveResolvers_def
  by (intro advances_intros allowsD [OF assms]) simp_all

lemma advances_preProcessPluginUpdateTypes:
  assumes "allows Q p s e [AddPrePropertiesToTypeDefinition]"
  shows "advances Q r (preProcessPluginUpdateTypes s e p r)"
proof -
  obtain new r1 where c: "collectEach p AddPrePropertiesToTypeDefinition
      (addPrePropertiesToTypeDefinition p) s e r = (new, r1)"
    by (cases "collectEach p AddPrePropertiesToTypeDefinition
      (addPrePropertiesToTypeDefinition p) s e r")
  have r1: "advances Q r r1"
    using advances_collectEach [of Q p AddPrePropertiesToTypeDefinition s e r
        "addPrePropertiesToTypeDefinition p"] allowsD(3) [OF assms] c by simp
  have "advances Q r1 (updatePluginSchemas (mergeIncomingTypes r1 new))"
    using advances_merges(2) [of Q r1 new]
      advances_updatePluginSchemas [of Q "mergeIncomingTypes r1 new"] allowsD(1) [OF assms]
      advances_trans by blast
  with r1 c show ?thesis
    using advances_trans by (auto simp: preProcessPluginUpdateTypes_def)
qed

lemma advances_postProcessPluginUpdateTypes:
  assumes "allows Q p s e [AddPostPropertiesToTypeDefinition]"
  shows "advances Q r (postProcessPluginUpdateTypes s e p r)"
proof -
  obtain new r1 where c: "collectEach p AddPostPropertiesToTypeDefinition
      (addPostPropertiesToTypeDefinition p) s e r = (new, r1)"
    by (cases "collectEach p AddPostPropertiesToTypeDefinition
      (addPostPropertiesToTypeDefinition p) s e r")
  have r1: "advances Q r r1"
    using advances_collectEach [of Q p AddPostPropertiesToTypeDefinition s e r
        "addPostPropertiesToTypeDefinition p"] allowsD(3) [OF assms] c by simp
  have "advances Q r1 (updatePluginSchemas (mergeIncomingTypes r1 new))"
    using advances_merges(2) [of Q r1 new]
      advances_updatePluginSchemas [of Q "mergeIncomingTypes r1 new"] allowsD(1) [OF assms]
      advances_trans by blast
  with r1 c show ?thesis
    using advances_trans by (auto simp: postProcessPluginUpdateTypes_def)
qed

lemmas advances_subSteps =
  advances_processPluginTypeDefinitions
  advances_processPluginTypeExtensionDefinitions
  advances_processPluginTypeResolvers
  advances_processPluginTypeExtensionResolvers
  advances_processPluginQueryDefinitions
  advances_processPluginQueryExtensionDefinitions
  advances_processPluginQueryResolvers
  advances_processPluginQueryExtensionResolvers
  advances_processPluginMutationDefinitions
  advances_processPluginMutationExtensionDefinitions
  advances_processPluginMutationResolvers
  advances_processPluginMutationExtensionResolvers
  advances_processPluginSubscriptionDefinitions
  advances_processPluginSubscriptionExtensionDefinitions
  advances_processPluginSubscriptionResolvers
  advances_processPluginSubscriptionExtensionResolvers

lemma advances_laterSubSteps:
  assumes "allows Q p s e laterSubStepHooks" and "f \<in> set (tl mainSubSteps)"
  shows "advances Q r (f s e p r)"
  using assms(2) unfolding mainSubSteps_def
  by (auto intro!: advances_subSteps allows_mono [OF assms(1)] simp: laterSubStepHooks_def)

lemma advances_mainSubSteps:
  assumes "allows Q p s e mainHooks" and "f \<in> set mainSubSteps"
  shows "advances Q r (f s e p r)"
proof -
  have l: "allows Q p s e laterSubStepHooks"
    using assms(1) by (rule allows_mono) (auto simp: mainHooks_def)
  have t: "allows Q p s e [AddTypeDefinitions, AddTypeDefinitionsForTypeDefinition]"
    using assms(1) by (rule allows_mono) (auto simp: mainHooks_def)
  have "f = processPluginTypeDefinitions \<or> f \<in> set (tl mainSubSteps)"
    using assms(2) by (auto simp: mainSubSteps_def)
  then show ?thesis
    using advances_laterSubSteps [OF l] advances_processPluginTypeDefinitions [OF t] by blast
qed

lemma advances_mainProcessPlugin:
  assumes "allows Q p (getDefinitionsDocument r) (getExtensionDefinitionsDocument r) mainHooks"
  shows "advances Q r (mainProcessPlugin r p)"
  unfolding mainProcessPlugin_def Let_def
  by (rule advances_foldl) (rule advances_mainSubSteps [OF assms])

lemma advances_preProcessPlugin:
  assumes "allows Q p (getDefinitionsDocument r) (getExtensionDefinitionsDocument r)
             [AddPrePropertiesToTypeDefinition]"
  shows "advances Q r (preProcessPlugin r p)"
  unfolding preProcessPlugin_def by (rule advances_preProcessPluginUpdateTypes [OF assms])

lemma advances_directivesAndPostProcessPlugin:
  assumes "allows Q p (getDefinitionsDocument r) (getExtensionDefinitionsDocument r)
             [AddDirectiveDefinitions, AddDirectiveResolvers, AddPostPropertiesToTypeDefinition]"
  shows "advances Q r (directivesAndPostProcessPlugin r p)"
proof -
  let ?s = "getDefinitionsDocument r" and ?e = "getExtensionDefinitionsDocument r"
  let ?r1 = "processPluginDirectiveDefinitions ?s ?e p r"
  let ?r2 = "processPluginDirectiveResolvers ?s ?e p ?r1"
  have 1: "advances Q r ?r1"
    by (rule advances_processPluginDirectiveDefinitions) (rule allows_mono [OF assms], simp)
  have 2: "advances Q ?r1 ?r2"
    by (rule advances_processPluginDirectiveResolvers) (rule allows_mono [OF assms], simp)
  have 3: "advances Q ?r2 (postProcessPluginUpdateTypes ?s ?e p ?r2)"
    by (rule advances_postProcessPluginUpdateTypes) (rule allows_mono [OF assms], simp)
  show ?thesis
    unfolding directivesAndPostProcessPlugin_def Let_def
    using 1 2 3 advances_trans by blast
qed

lemma advances_validateAndFinish:
  assumes "\<And>p h. p \<in> set ps \<Longrightarrow> h \<in> {ValidateSchema, SetFinalSchema}
             \<Longrightarrow> Q (HookCall (name p) h (Docs s e))"
  shows "advances Q r (snd (validateAndFinish s e ps r))"
  using assms
proof (induction ps arbitrary: r)
  case Nil
  show ?case by (simp add: advances_refl)
next
  case (Cons p ps)
  obtain res r1 where c: "callGlobal p ValidateSchema (validateSchema p) s e r = (res, r1)"
    by (cases "callGlobal p ValidateSchema (validateSchema p) s e r")
  have r1: "advances Q r r1"
    using advances_callGlobal [of Q p ValidateSchema s e r "validateSchema p"] Cons.prems c
    by simp
  show ?case
  proof (cases res)
    case (Some m)
    with c r1 show ?thesis by simp
  next
    case None
    let ?r2 = "notify p SetFinalSchema (setFinalSchema p) s e r1"
    have "advances Q r1 ?r2"
      by (rule advances_notify) (simp add: Cons.prems)
    moreover have "advances Q ?r2 (snd (validateAndFinish s e ps ?r2))"
      by (rule Cons.IH) (simp add: Cons.prems)
    ultimately show ?thesis
      using c None r1 advances_trans by (metis (no_types, lifting) case_prod_conv
          option.simps(4) validateAndFinish.simps(2))
  qed
qed

subsection \<open>The pipeline as a whole\<close>

lemma advances_initialNotify: "advances (\<lambda>c. True) r (initialNotify s e r p)"
  unfolding initialNotify_def by (rule advances_notify) simp

lemma allows_True: "allows (\<lambda>c. True) p s e hs"
  by (simp add: allows_def)

lemma advances_runPluginPhases: "advances (\<lambda>c. True) r (runPluginPhases r)"
proof -
  let ?Q = "\<lambda>c::hookCall. True"
  let ?r1 = "foldl (initialNotify (getDefinitionsDocument r)
                       (getExtensionDefinitionsDocument r)) r (plugins r)"
  let ?r2 = "foldl preProcessPlugin ?r1 (plugins ?r1)"
  let ?r3 = "foldl mainProcessPlugin ?r2 (plugins ?r2)"
  let ?r4 = "foldl directivesAndPostProcessPlugin ?r3 (plugins ?r3)"
  have 1: "advances ?Q r ?r1"
    by (rule advances_foldl) (rule advances_initialNotify)
  have 2: "advances ?Q ?r1 ?r2"
    by (rule advances_foldl) (rule advances_preProcessPlugin [OF allows_True])
  have 3: "advances ?Q ?r2 ?r3"
    by (rule advances_foldl) (rule advances_mainProcessPlugin [OF allows_True])
  have 4: "advances ?Q ?r3 ?r4"
    by (rule advances_foldl) (rule advances_directivesAndPostProcessPlugin [OF allows_True])
  have "advances ?Q r ?r4"
    using 1 2 3 4 advances_trans by blast
  then show ?thesis by (simp add: runPluginPhases_def Let_def)
qed

lemma advances_pipelineBody: "advances (\<lambda>c. True) r (snd (pipelineBody r))"
  unfolding pipelineBody_def
  using advances_runPluginPhases [of r]
    advances_validateAndFinish [of "plugins (runPluginPhases r)" "\<lambda>c. True"]
    advances_trans by blast

lemma processPlugins_done: "hasProcessedPlugins r \<Longrightarrow> processPlugins r = (Resolved (), r)"
  by (simp add: processPlugins_def)

lemma processPlugins_body:
  "\<not> hasProcessedPlugins r \<Longrightarrow>
   processPlugins r =
     (case pipelineBody r of
        (Rejected e, r') \<Rightarrow> (Rejected e, r')
      | (Resolved u, r') \<Rightarrow> (Resolved (), r'\<lparr>hasProcessedPlugins := True\<rparr>))"
  by (simp add: processPlugins_def pipelineBody_def Let_def)

lemma processPlugins_resolved:
  assumes "processPlugins r = (Resolved u, r')"
  shows "hasProcessedPlugins r' \<and> hasExecutedPreStart r' = hasExecutedPreStart r \<and>
         plugins r' = plugins r"
proof (cases "hasProcessedPlugins r")
  case True
  with assms show ?thesis by (simp add: processPlugins_done)
next
  case False
  obtain out r1 where b: "pipelineBody r = (out, r1)" by (cases "pipelineBody r")
  have "advances (\<lambda>c. True) r r1" using advances_pipelineBody [of r] b by simp
  with assms False b show ?thesis
    by (cases out) (auto simp: processPlugins_body advances_def)
qed

lemma processPlugins_rejected:
  assumes "processPlugins r = (Rejected e, r')"
  shows "\<not> hasProcessedPlugins r' \<and> executableSchema r' = executableSchema r \<and>
         hasExecutedPreStart r' = hasExecutedPreStart r \<and> plugins r' = plugins r \<and>
         r' = snd (pipelineBody r)"
proof (cases "hasProcessedPlugins r")
  case True
  with assms show ?thesis by (simp add: processPlugins_done)
next
  case False
  obtain out r1 where b: "pipelineBody r = (out, r1)" by (cases "pipelineBody r")
  have "advances (\<lambda>c. True) r r1" using advances_pipelineBody [of r] b by simp
  with assms False b show ?thesis
    by (cases out) (auto simp: processPlugins_body advances_def)
qed

lemma validateAndFinish_rejects:
  assumes "p \<in> set ps" and "validateSchema p = Some v" and "v s e = Some message"
  shows "\<exists>err. fst (validateAndFinish s e ps r) = Rejected err"
  using assms(1)
proof (induction ps arbitrary: r)
  case Nil
  then show ?case by simp
next
  case (Cons q ps)
  show ?case
  proof (cases "\<exists>w m. validateSchema q = Some w \<and> w s e = Some m")
    case True
    then show ?thesis by (auto simp: callGlobal_def)
  next
    case False
    with assms(2,3) have "q \<noteq> p" by auto
    with Cons.prems have "p \<in> set ps" by simp
    from Cons.IH [OF this] False show ?thesis
      by (cases "validateSchema q") (auto simp: callGlobal_def split: option.splits)
  qed
qed

lemma validateAndFinish_calls:
  assumes "p \<in> set ps" and "validateSchema p \<noteq> None"
  shows "\<exists>c\<in>set (newCalls r (snd (validateAndFinish s e ps r))). called c = ValidateSchema"
  using assms(1)
proof (induction ps arbitrary: r)
  case Nil
  then show ?case by simp
next
  case (Cons q ps)
  let ?T = "\<lambda>c::hookCall. True"
  show ?case
  proof (cases "validateSchema q")
    case None
    with assms(2) have "q \<noteq> p" by auto
    with Cons.prems have p: "p \<in> set ps" by simp
    let ?r1 = "notify q SetFinalSchema (setFinalSchema q) s e r"
    have a1: "advances ?T r ?r1" by (rule advances_notify) simp
    have a2: "advances ?T ?r1 (snd (validateAndFinish s e ps ?r1))"
      by (rule advances_validateAndFinish) simp
    have "newCalls r (snd (validateAndFinish s e ps ?r1)) =
          newCalls r ?r1 @ newCalls ?r1 (snd (validateAndFinish s e ps ?r1))"
      by (rule newCalls_trans [OF a1 a2])
    with Cons.IH [OF p, of ?r1] None show ?thesis
      by (auto simp: callGlobal_def)
  next
    case (Some w)
    let ?c = "HookCall (name q) ValidateSchema (Docs s e)"
    let ?r1 = "r\<lparr>hookCalls := hookCalls r @ [?c]\<rparr>"
    have a1: "advances ?T r ?r1" by (rule advances_call) simp
    have n1: "newCalls r ?r1 = [?c]" by (simp add: newCalls_def)
    show ?thesis
    proof (cases "w s e")
      case (Some m)
      with \<open>validateSchema q = Some w\<close> n1 show ?thesis by (simp add: callGlobal_def)
    next
      case None
      let ?r2 = "notify q SetFinalSchema (setFinalSchema q) s e ?r1"
      let ?r3 = "snd (validateAndFinish s e ps ?r2)"
      have a2: "advances ?T ?r1 ?r2" by (rule advances_notify) simp
      have a3: "advances ?T ?r2 ?r3" by (rule advances_validateAndFinish) simp
      have a23: "advances ?T ?r1 ?r3" using a2 a3 by (rule advances_trans)
      have "newCalls r ?r3 = newCalls r ?r1 @ newCalls ?r1 ?r3"
        by (rule newCalls_trans [OF a1 a23])
      with n1 have "?c \<in> set (newCalls r ?r3)" by simp
      moreover have "snd (validateAndFinish s e (q # ps) r) = ?r3"
        using \<open>validateSchema q = Some w\<close> None by (simp add: callGlobal_def)
      ultimately show ?thesis by force
    qed
  qed
qed

subsection \<open>Setup, remote sources and finalization\<close>

lemma preStart_done: "hasExecutedPreStart r \<Longrightarrow> preStart env r = Some r"
  by (simp add: preStart_def)

lemma preStart_sets_flag: "preStart env r = Some r0 \<Longrightarrow> hasExecutedPreStart r0"
  by (auto simp: preStart_def split: if_splits)

lemma onlyRemotes_refl: "onlyRemotes r r"
  unfolding onlyRemotes_def by (rule exI [of _ "remoteSchemas r"]) simp

lemma onlyRemotes_trans: "onlyRemotes r r' \<Longrightarrow> onlyRemotes r' r'' \<Longrightarrow> onlyRemotes r r''"
  unfolding onlyRemotes_def by auto

lemma onlyRemotes_wrapRemote: "onlyRemotes (snd state) (snd (wrapRemote n d s state))"
  unfolding onlyRemotes_def wrapRemote_def Let_def by auto

lemma onlyRemotes_wrapRemoteSchemas:
  "onlyRemotes (snd state) (snd (wrapRemoteSchemas ds state))"
proof (induction ds arbitrary: state)
  case Nil
  show ?case by (simp add: onlyRemotes_refl)
next
  case (Cons nd ds)
  obtain n d where nd: "nd = (n, d)" by (cases nd)
  have step: "onlyRemotes (snd state) (snd (wrapRemoteSchemas ds (wrapRemote n d s state)))" for s
    using onlyRemotes_wrapRemote [of state n d s] Cons.IH [of "wrapRemote n d s state"]
    by (rule onlyRemotes_trans)
  show ?case
    unfolding nd using step Cons.IH [of state]
    by (simp add: onlyRemotes_refl split: option.splits outcome.splits)
qed

lemma wrapRemoteSchemas_resolved:
  "wrapRemoteSchemas ds state = (Resolved ws, r') \<Longrightarrow> ws = fst state @ wrappedSources ds"
proof (induction ds arbitrary: state)
  case Nil
  then show ?case by (simp add: wrappedSources_def)
next
  case (Cons nd ds)
  obtain n d where nd: "nd = (n, d)" by (cases nd)
  have w: "wrappedSources ((n, d) # ds) =
      (case resolvedSource d of None \<Rightarrow> []
       | Some s \<Rightarrow> [transformSchema s (executor d) (transforms d)]) @ wrappedSources ds"
    by (simp add: wrappedSources_def)
  have f: "fst (wrapRemote n d s state) = fst state @ [transformSchema s (executor d) (transforms d)]"
    for s by (simp add: wrapRemote_def Let_def)
  show ?case
    using Cons.prems Cons.IH [of state] Cons.IH [of "wrapRemote n d _ state"]
    unfolding nd
    by (auto simp: w resolvedSource_def f split: option.splits outcome.splits)
qed

lemma built_refl: "built r r"
  unfolding built_def
  by (rule exI [of _ "remoteSchemas r"], rule exI [of _ "executableSchema r"]) simp

lemma built_onlyRemotes:
  assumes "onlyRemotes r r'"
  shows "built r r'"
proof -
  from assms obtain rs where "r' = r\<lparr>remoteSchemas := rs\<rparr>"
    unfolding onlyRemotes_def by blast
  then have "r' = r\<lparr>remoteSchemas := rs, executableSchema := executableSchema r\<rparr>"
    by simp
  then show ?thesis unfolding built_def by blast
qed

lemma built_cache:
  assumes "onlyRemotes r r'"
  shows "built r (r'\<lparr>executableSchema := ex\<rparr>)"
proof -
  from assms obtain rs where "r' = r\<lparr>remoteSchemas := rs\<rparr>"
    unfolding onlyRemotes_def by blast
  then show ?thesis unfolding built_def by blast
qed

lemma built_trans:
  assumes "built r r'" and "built r' r''"
  shows "built r r''"
proof -
  from assms obtain rs ex rs' ex' where
    "r' = r\<lparr>remoteSchemas := rs, executableSchema := ex\<rparr>"
    "r'' = r'\<lparr>remoteSchemas := rs', executableSchema := ex'\<rparr>"
    unfolding built_def by blast
  then have "r'' = r\<lparr>remoteSchemas := rs', executableSchema := ex'\<rparr>" by simp
  then show ?thesis unfolding built_def by blast
qed

lemma built_fields:
  assumes "built r r'"
  shows "hookCalls r' = hookCalls r" "hasProcessedPlugins r' = hasProcessedPlugins r"
    "hasExecutedPreStart r' = hasExecutedPreStart r" "plugins r' = plugins r"
    "getDefinitionsDocument r' = getDefinitionsDocument r"
    "getExtensionDefinitionsDocument r' = getExtensionDefinitionsDocument r"
  using assms unfolding built_def
  by (auto simp: getDefinitionsDocument_eq getExtensionDefinitionsDocument_eq)

lemma finalize_cases:
  assumes "finalize env op r = Some (out, r')"
  shows "\<exists>r0. preStart env r = Some r0 \<and>
           ((\<exists>e. processPlugins r0 = (Rejected e, r') \<and> out = Rejected e) \<or>
            (\<exists>rp. processPlugins r0 = (Resolved (), rp) \<and> built rp r'))"
proof -
  obtain r0 where p: "preStart env r = Some r0"
    using assms
    by (cases op; cases "preStart env r")
       (simp_all add: getFederatableSchema_def getSchema_def getExecutableSchema_def)
  obtain pout rp where pp: "processPlugins r0 = (pout, rp)"
    by (cases "processPlugins r0")
  show ?thesis
  proof (cases pout)
    case (Rejected e)
    with assms p pp have "out = Rejected e \<and> r' = rp"
      by (cases op)
         (auto simp: getFederatableSchema_def getSchema_def getExecutableSchema_def)
    with p pp Rejected show ?thesis by blast
  next
    case (Resolved u)
    obtain wout rw where w: "wrapRemoteSchemas (remoteSchemas rp) ([], rp) = (wout, rw)"
      by (cases "wrapRemoteSchemas (remoteSchemas rp) ([], rp)")
    have o: "onlyRemotes rp rw"
      using onlyRemotes_wrapRemoteSchemas [of "([], rp)" "remoteSchemas rp"] w by simp
    have "built rp r'"
    proof (cases op)
      case GetFederatableSchema
      with assms p pp Resolved show ?thesis
        by (auto simp: getFederatableSchema_def built_refl)
    next
      case GetSchema
      with assms p pp Resolved w built_onlyRemotes [OF o] show ?thesis
        by (cases wout) (auto simp: getSchema_def Let_def)
    next
      case GetExecutableSchema
      with assms p pp Resolved w built_onlyRemotes [OF o] built_cache [OF o] show ?thesis
        by (cases wout; cases "executableSchema rp")
           (auto simp: getExecutableSchema_def Let_def built_refl)
    qed
    with p pp Resolved show ?thesis by simp
  qed
qed

lemma finalize_returns:
  assumes "preStart env r = Some r0"
  shows "\<exists>out r'. finalize env op r = Some (out, r')"
  using assms
  by (cases op)
     (auto simp: getFederatableSchema_def getSchema_def getExecutableSchema_def Let_def
        split: prod.splits outcome.splits option.splits)

lemma finalize_settled:
  assumes "hasProcessedPlugins r" and "hasExecutedPreStart r"
  shows "\<exists>out r'. finalize env op r = Some (out, r') \<and> built r r'"
proof -
  obtain out r' where f: "finalize env op r = Some (out, r')"
    using finalize_returns [OF preStart_done [OF assms(2)]] by blast
  from finalize_cases [OF f] assms have "built r r'"
    by (auto simp: preStart_done processPlugins_done)
  with f show ?thesis by blast
qed

lemma finalizeAll_settled:
  assumes "hasProcessedPlugins r" and "hasExecutedPreStart r"
  shows "\<exists>r'. finalizeAll env ops r = Some r' \<and> built r r'"
  using assms
proof (induction ops arbitrary: r)
  case Nil
  show ?case by (simp add: built_refl)
next
  case (Cons op ops)
  obtain out r1 where f: "finalize env op r = Some (out, r1)" and b: "built r r1"
    using finalize_settled [OF Cons.prems] by blast
  have "hasProcessedPlugins r1" "hasExecutedPreStart r1"
    using built_fields [OF b] Cons.prems by simp_all
  from Cons.IH [OF this] obtain r2 where
    a: "finalizeAll env ops r1 = Some r2" and b2: "built r1 r2" by blast
  have "built r r2" using b b2 by (rule built_trans)
  with f a show ?case by simp
qed

subsection \<open>Running the pipeline on given plugins\<close>

lemma preStartFrom_done:
  "\<not> p < length (preStartFunctions r) \<Longrightarrow> preStartFrom env p r = Some r"
  by (subst preStartFrom.simps) simp

lemma preStartFrom_step:
  "p < length (preStartFunctions r) \<Longrightarrow>
   preStartFrom env p r = preStartFrom env (Suc p) (env (preStartFunctions r ! p) r)"
  by (subst preStartFrom.simps) simp

lemma offerGlobal_None: "offerGlobal p h None merge s e state = state"
  by (simp add: offerGlobal_def callGlobal_def)

lemma offerGlobal_Some:
  "offerGlobal p h (Some g) merge s e state =
     (case g s e of
        None \<Rightarrow> ((fst state)\<lparr>hookCalls := hookCalls (fst state) @ [HookCall (name p) h (Docs s e)]\<rparr>,
                 snd state)
      | Some x \<Rightarrow> (merge ((fst state)\<lparr>hookCalls := hookCalls (fst state) @ [HookCall (name p) h (Docs s e)]\<rparr>) x,
                  True))"
  by (simp add: offerGlobal_def callGlobal_def split: option.splits)

lemma offerEach_None: "offerEach p h None merge s e state = state"
proof -
  have "foldl (\<lambda>state typeDefinition.
       case callNode p h None typeDefinition s e (fst state) of
         (None, r) \<Rightarrow> (r, snd state)
       | (Some contribution, r) \<Rightarrow> (merge r contribution, True)) state ds = state" for ds
    by (induction ds) (simp_all add: callNode_def)
  then show ?thesis by (simp add: offerEach_def)
qed

lemma collectEach_None: "collectEach p h None s e r = ([], r)"
proof -
  have "foldl (\<lambda>(newTypeDefinitions, r) typeDefinition.
       case callNode p h None typeDefinition s e r of
         (None, r) \<Rightarrow> (newTypeDefinitions, r)
       | (Some updatedTypeDefiniton, r) \<Rightarrow> (newTypeDefinitions @ [updatedTypeDefiniton], r))
       state ds = state" for ds state
    by (induction ds) (simp_all add: callNode_def split: prod.splits)
  then show ?thesis by (simp add: collectEach_def)
qed

lemmas obj_simps =
  assign_def defineOwn_def isArrayIndex_def isDigit_def indexValue_def copy_def spread_def
  assignEach_def objectPrototypeNames_def

lemmas run_simps =
  processPlugins_def runPluginPhases_def initialNotify_def preProcessPlugin_def
  mainProcessPlugin_def mainSubSteps_def directivesAndPostProcessPlugin_def
  processPluginDirectiveDefinitions_def processPluginDirectiveResolvers_def
  preProcessPluginUpdateTypes_def postProcessPluginUpdateTypes_def
  processPluginTypeDefinitions_def processPluginTypeExtensionDefinitions_def
  processPluginTypeResolvers_def processPluginTypeExtensionResolvers_def
  processPluginQueryDefinitions_def processPluginQueryExtensionDefinitions_def
  processPluginQueryResolvers_def processPluginQueryExtensionResolvers_def
  processPluginMutationDefinitions_def processPluginMutationExtensionDefinitions_def
  processPluginMutationResolvers_def processPluginMutationExtensionResolvers_def
  processPluginSubscriptionDefinitions_def processPluginSubscriptionExtensionDefinitions_def
  processPluginSubscriptionResolvers_def processPluginSubscriptionExtensionResolvers_def
  offerGlobal_None offerGlobal_Some offerEach_None collectEach_None
  rebroadcast_def updatePluginSchemas_def notify_def callGlobal_def
  getDefinitionsDocument_eq getExtensionDefinitionsDocument_eq Let_def

lemma noHooks_fields:
  "name (noHooks n) = n"
  "registry (noHooks n) = False"
  "clearHook (noHooks n) = False"
  "setInitialSchema (noHooks n) = False"
  "schemaUpdated (noHooks n) = False"
  "setFinalSchema (noHooks n) = False"
  "validateSchema (noHooks n) = None"
  "addPrePropertiesToTypeDefinition (noHooks n) = None"
  "addPostPropertiesToTypeDefinition (noHooks n) = None"
  "addDirectiveDefinitions (noHooks n) = None"
  "addDirectiveResolvers (noHooks n) = None"
  "addTypeDefinitions (noHooks n) = None"
  "addQueryDefinitions (noHooks n) = None"
  "addMutationDefinitions (noHooks n) = None"
  "addSubscriptionDefinitions (noHooks n) = None"
  "addTypeResolvers (noHooks n) = None"
  "addQueryResolvers (noHooks n) = None"
  "addMutationResolvers (noHooks n) = None"
  "addSubscriptionResolvers (noHooks n) = None"
  "addTypeDefinitionsForTypeDefinition (noHooks n) = None"
  "addQueryDefinitionsForTypeDefinition (noHooks n) = None"
  "addMutationDefinitionsForTypeDefinition (noHooks n) = None"
  "addSubscriptionDefinitionsForTypeDefinition (noHooks n) = None"
  "addTypeResolversForTypeDefinition (noHooks n) = None"
  "addQueryResolversForTypeDefinition (noHooks n) = None"
  "addMutationResolversForTypeDefinition (noHooks n) = None"
  "addSubscriptionResolversForTypeDefinition (noHooks n) = None"
  "addTypeDefinitionExtensionsForTypeDefinition (noHooks n) = None"
  "addQueryDefinitionExtensionsForTypeDefinition (noHooks n) = None"
  "addMutationDefinitionExtensionsForTypeDefinition (noHooks n) = None"
  "addSubscriptionDefinitionExtensionsForTypeDefinition (noHooks n) = None"
  "addTypeResolverExtensionsForTypeDefinition (noHooks n) = None"
  "addQueryResolverExtensionsForTypeDefinition (noHooks n) = None"
  "addMutationResolverExtensionsForTypeDefinition (noHooks n) = None"
  "addSubscriptionResolverExtensionsForTypeDefinition (noHooks n) = None"
  by (simp_all add: noHooks_def)

lemma countingRegistry_eq:
  "countingRegistry = newRegistry\<lparr>plugins := [counting\<lparr>registry := True\<rparr>]\<rparr>"
  by (simp add: countingRegistry_def registerPlugin_def newRegistry_def)

lemma counting_run: "processPlugins countingRegistry =
   (Resolved (), countingRegistry\<lparr>hookCalls := [HookCall ''counting'' AddTypeDefinitions (Docs [] [])], hasProcessedPlugins := True\<rparr>)"
  by (simp add: countingRegistry_eq newRegistry_def counting_def noHooks_fields run_simps
        mergeIncomingTypes_def)

subsection \<open>The calls of the global type-add hook in one run\<close>

lemma filter_newCalls_empty:
  assumes "advances Q r r'" and "\<And>c. Q c \<Longrightarrow> \<not> P c"
  shows "filter P (newCalls r r') = []"
  using assms unfolding advances_def by (auto simp: list_all_iff filter_empty_conv)

lemma advances_weaken: "advances Q r r' \<Longrightarrow> advances (\<lambda>c. True) r r'"
  by (erule advances_mono) simp

lemma isTypeAdd_HookCall: "isTypeAdd (HookCall n h a) = (h = AddTypeDefinitions)"
  by (simp add: isTypeAdd_def)

lemma newCalls_trans':
  assumes "advances Q r r'" and "advances Q' r' r''"
  shows "filter P (newCalls r r'') = filter P (newCalls r r') @ filter P (newCalls r' r'')"
  using newCalls_trans [OF assms] by simp

lemma allows_notTypeAdd:
  assumes "AddTypeDefinitions \<notin> set hs"
  shows "allows (\<lambda>c. \<not> isTypeAdd c) p s e hs"
  using assms unfolding allows_def by (auto simp: isTypeAdd_HookCall)

lemma advances_initialNotify_Q:
  "Q (HookCall (name p) SetInitialSchema (Docs s e)) \<Longrightarrow> advances Q r (initialNotify s e r p)"
  unfolding initialNotify_def by (rule advances_notify)

lemma advances_beforeMainPhase:
  "advances (\<lambda>c. \<not> isTypeAdd c) r (beforeMainPhase r)"
proof -
  let ?Q = "\<lambda>c. \<not> isTypeAdd c"
  let ?r1 = "foldl (initialNotify (getDefinitionsDocument r)
                       (getExtensionDefinitionsDocument r)) r (plugins r)"
  have 1: "advances ?Q r ?r1"
    by (rule advances_foldl) (simp add: advances_initialNotify_Q isTypeAdd_HookCall)
  have 2: "advances ?Q ?r1 (foldl preProcessPlugin ?r1 (plugins r))"
    by (rule advances_foldl) (simp add: advances_preProcessPlugin allows_notTypeAdd)
  show ?thesis unfolding beforeMainPhase_def using 1 2 by (rule advances_trans)
qed

lemma newCalls_callGlobal:
  "newCalls r (snd (callGlobal p h f s e r)) =
     (case f of None \<Rightarrow> [] | Some g \<Rightarrow> [HookCall (name p) h (Docs s e)])"
  by (cases f) (simp_all add: callGlobal_def newCalls_def)

lemma typeAdd_processPluginTypeDefinitions:
  "filter isTypeAdd (newCalls r (processPluginTypeDefinitions s e p r)) =
     (case addTypeDefinitions p of
        None \<Rightarrow> []
      | Some add \<Rightarrow> [HookCall (name p) AddTypeDefinitions (Docs s e)])"
proof -
  let ?T = "\<lambda>c::hookCall. True" and ?N = "\<lambda>c. \<not> isTypeAdd c"
  let ?call = "callGlobal p AddTypeDefinitions (addTypeDefinitions p) s e r"
  let ?st = "offerGlobal p AddTypeDefinitions (addTypeDefinitions p) mergeIncomingTypes s e
               (r, False)"
  let ?end = "rebroadcast (offerEach p AddTypeDefinitionsForTypeDefinition
               (addTypeDefinitionsForTypeDefinition p) mergeIncomingTypes s e ?st)"
  have a0: "advances ?T r (snd ?call)" by (rule advances_callGlobal) simp
  have a1: "advances ?N (snd ?call) (fst ?st)"
    by (cases "fst ?call")
       (auto simp: offerGlobal_def advances_refl advances_merges split: prod.splits)
  have a2: "advances ?N (fst ?st) ?end"
    by (intro advances_intros advances_refl) (simp_all add: isTypeAdd_HookCall)
  have a12: "advances ?N (snd ?call) ?end" using a1 a2 by (rule advances_trans)
  have "filter isTypeAdd (newCalls r ?end) =
        filter isTypeAdd (newCalls r (snd ?call)) @ filter isTypeAdd (newCalls (snd ?call) ?end)"
    by (rule newCalls_trans' [OF a0 a12])
  also have "filter isTypeAdd (newCalls (snd ?call) ?end) = []"
    by (rule filter_newCalls_empty [OF a12]) simp
  finally show ?thesis
    by (simp add: processPluginTypeDefinitions_def newCalls_callGlobal isTypeAdd_HookCall
        split: option.splits)
qed

lemma mainProcessPlugin_split:
  "mainProcessPlugin r p =
     foldl (\<lambda>r' subStep. subStep (getDefinitionsDocument r) (getExtensionDefinitionsDocument r) p r')
       (processPluginTypeDefinitions (getDefinitionsDocument r)
          (getExtensionDefinitionsDocument r) p r)
       (tl mainSubSteps)"
  by (simp add: mainProcessPlugin_def mainSubSteps_def Let_def)

lemma advances_afterFirstSubStep:
  "advances (\<lambda>c. \<not> isTypeAdd c) r1
     (foldl (\<lambda>r subStep. subStep s e p r) r1 (tl mainSubSteps))"
  by (rule advances_foldl, rule advances_laterSubSteps)
     (simp_all add: allows_notTypeAdd laterSubStepHooks_def)

lemma typeAdd_mainProcessPlugin:
  "filter isTypeAdd (newCalls r (mainProcessPlugin r p)) =
     (case addTypeDefinitions p of
        None \<Rightarrow> []
      | Some add \<Rightarrow>
          [HookCall (name p) AddTypeDefinitions
             (Docs (getDefinitionsDocument r) (getExtensionDefinitionsDocument r))])"
proof -
  let ?s = "getDefinitionsDocument r" and ?e = "getExtensionDefinitionsDocument r"
  let ?r1 = "processPluginTypeDefinitions ?s ?e p r"
  let ?r2 = "foldl (\<lambda>r subStep. subStep ?s ?e p r) ?r1 (tl mainSubSteps)"
  have a1: "advances (\<lambda>c. True) r ?r1"
    by (rule advances_processPluginTypeDefinitions) (rule allows_True)
  have a2: "advances (\<lambda>c. \<not> isTypeAdd c) ?r1 ?r2"
    by (rule advances_afterFirstSubStep)
  have "filter isTypeAdd (newCalls r ?r2) =
        filter isTypeAdd (newCalls r ?r1) @ filter isTypeAdd (newCalls ?r1 ?r2)"
    by (rule newCalls_trans' [OF a1 a2])
  also have "filter isTypeAdd (newCalls ?r1 ?r2) = []"
    by (rule filter_newCalls_empty [OF a2]) simp
  finally show ?thesis
    by (simp add: mainProcessPlugin_split typeAdd_processPluginTypeDefinitions)
qed

lemma advances_mainLoop: "advances (\<lambda>c. True) r (foldl mainProcessPlugin r ps)"
  by (rule advances_foldl) (rule advances_mainProcessPlugin [OF allows_True])

lemma typeAdd_mainLoop:
  "filter isTypeAdd (newCalls r (foldl mainProcessPlugin r ps)) = typeAddCalls r ps"
proof (induction ps arbitrary: r)
  case Nil
  show ?case by (simp add: newCalls_def)
next
  case (Cons p ps)
  let ?r1 = "mainProcessPlugin r p"
  have a1: "advances (\<lambda>c. True) r ?r1"
    by (rule advances_mainProcessPlugin [OF allows_True])
  have a2: "advances (\<lambda>c. True) ?r1 (foldl mainProcessPlugin ?r1 ps)"
    by (rule advances_mainLoop)
  have "filter isTypeAdd (newCalls r (foldl mainProcessPlugin ?r1 ps)) =
        filter isTypeAdd (newCalls r ?r1) @
        filter isTypeAdd (newCalls ?r1 (foldl mainProcessPlugin ?r1 ps))"
    by (rule newCalls_trans' [OF a1 a2])
  then show ?case
    by (simp add: typeAdd_mainProcessPlugin Cons.IH)
qed



lemma map_callee_typeAddCalls:
  "map callee (typeAddCalls r ps) = map name (filter (\<lambda>p. addTypeDefinitions p \<noteq> None) ps)"
  by (induction ps arbitrary: r) (auto split: option.splits)

lemma runPluginPhases_split:
  "runPluginPhases r =
     foldl directivesAndPostProcessPlugin
       (foldl mainProcessPlugin (beforeMainPhase r) (plugins r)) (plugins r)"
proof -
  let ?r1 = "foldl (initialNotify (getDefinitionsDocument r)
                       (getExtensionDefinitionsDocument r)) r (plugins r)"
  have 1: "advances (\<lambda>c. True) r ?r1"
    by (rule advances_foldl) (rule advances_initialNotify)
  have 2: "advances (\<lambda>c. True) r (beforeMainPhase r)"
    using advances_beforeMainPhase by (rule advances_weaken)
  have 3: "advances (\<lambda>c. True) (beforeMainPhase r)
             (foldl mainProcessPlugin (beforeMainPhase r) (plugins r))"
    by (rule advances_mainLoop)
  have p1: "plugins ?r1 = plugins r" using 1 by (simp add: advances_def)
  have p2: "plugins (beforeMainPhase r) = plugins r" using 2 by (simp add: advances_def)
  have p3: "plugins (foldl mainProcessPlugin (beforeMainPhase r) (plugins r)) = plugins r"
    using 3 p2 by (simp add: advances_def)
  show ?thesis
    by (simp add: runPluginPhases_def Let_def p1 p2 p3 beforeMainPhase_def [symmetric])
qed

lemma advances_directivesLoop:
  "advances (\<lambda>c. \<not> isTypeAdd c) r (foldl directivesAndPostProcessPlugin r ps)"
  by (rule advances_foldl) (simp add: advances_directivesAndPostProcessPlugin allows_notTypeAdd)

lemma typeAdd_runPluginPhases:
  "filter isTypeAdd (newCalls r (runPluginPhases r)) =
     typeAddCalls (beforeMainPhase r) (plugins r)"
proof -
  let ?N = "\<lambda>c. \<not> isTypeAdd c"
  let ?r2 = "beforeMainPhase r"
  let ?r3 = "foldl mainProcessPlugin ?r2 (plugins r)"
  let ?r4 = "foldl directivesAndPostProcessPlugin ?r3 (plugins r)"
  have a2: "advances ?N r ?r2" by (rule advances_beforeMainPhase)
  have a3: "advances (\<lambda>c. True) ?r2 ?r3" by (rule advances_mainLoop)
  have a4: "advances ?N ?r3 ?r4" by (rule advances_directivesLoop)
  have a34: "advances (\<lambda>c. True) ?r2 ?r4"
    using a3 advances_weaken [OF a4] by (rule advances_trans)
  have "filter isTypeAdd (newCalls r ?r4) =
        filter isTypeAdd (newCalls r ?r2) @ filter isTypeAdd (newCalls ?r2 ?r4)"
    by (rule newCalls_trans' [OF a2 a34])
  also have "filter isTypeAdd (newCalls r ?r2) = []"
    by (rule filter_newCalls_empty [OF a2]) simp
  also have "filter isTypeAdd (newCalls ?r2 ?r4) =
        filter isTypeAdd (newCalls ?r2 ?r3) @ filter isTypeAdd (newCalls ?r3 ?r4)"
    by (rule newCalls_trans' [OF a3 a4])
  also have "filter isTypeAdd (newCalls ?r3 ?r4) = []"
    by (rule filter_newCalls_empty [OF a4]) simp
  finally show ?thesis
    by (simp add: runPluginPhases_split typeAdd_mainLoop)
qed

lemma advances_validate_notTypeAdd:
  "advances (\<lambda>c. \<not> isTypeAdd c) r (snd (validateAndFinish s e ps r))"
  by (rule advances_validateAndFinish) (auto simp: isTypeAdd_HookCall)

lemma typeAdd_pipelineBody:
  "filter isTypeAdd (newCalls r (snd (pipelineBody r))) =
     typeAddCalls (beforeMainPhase r) (plugins r)"
proof -
  let ?rp = "runPluginPhases r"
  have a1: "advances (\<lambda>c. True) r ?rp" by (rule advances_runPluginPhases)
  have a2: "advances (\<lambda>c. \<not> isTypeAdd c) ?rp (snd (pipelineBody r))"
    unfolding pipelineBody_def by (rule advances_validate_notTypeAdd)
  have "filter isTypeAdd (newCalls r (snd (pipelineBody r))) =
        filter isTypeAdd (newCalls r ?rp) @ filter isTypeAdd (newCalls ?rp (snd (pipelineBody r)))"
    by (rule newCalls_trans' [OF a1 a2])
  also have "filter isTypeAdd (newCalls ?rp (snd (pipelineBody r))) = []"
    by (rule filter_newCalls_empty [OF a2]) simp
  finally show ?thesis by (simp add: typeAdd_runPluginPhases)
qed

lemma newCalls_processPlugins:
  "\<not> hasProcessedPlugins r \<Longrightarrow>
   newCalls r (snd (processPlugins r)) = newCalls r (snd (pipelineBody r))"
  by (cases "pipelineBody r"; cases "fst (pipelineBody r)")
     (auto simp: processPlugins_body newCalls_def)

lemma typeAdd_processPlugins:
  "\<not> hasProcessedPlugins r \<Longrightarrow>
   filter isTypeAdd (newCalls r (snd (processPlugins r))) =
     typeAddCalls (beforeMainPhase r) (plugins r)"
  by (simp add: newCalls_processPlugins typeAdd_pipelineBody)

subsection \<open>Documents seen by the hooks\<close>






subsection \<open>Clearing\<close>

text \<open>
  C5, as stated, fails: \<open>clear\<close> leaves the registered pre-start functions and the
  flag \<open>hasExecutedPreStart\<close> as they are. Here a new registry registers one pre-start
  function, runs it and is cleared.
\<close>

theorem clear_keeps_setup_counterexample:
  "preStart idleEnv (registerPreStartFunction newRegistry 0) = Some startedRegistry \<and>
   hasExecutedPreStart (clear startedRegistry) \<and>
   preStartFunctions (clear startedRegistry) = [0]"
proof -
  let ?r = "registerPreStartFunction newRegistry 0"
  have "preStartFrom idleEnv 0 ?r = preStartFrom idleEnv (Suc 0) ?r"
    by (subst preStartFrom_step)
       (simp_all add: registerPreStartFunction_def newRegistry_def idleEnv_def)
  also have "\<dots> = Some ?r"
    by (rule preStartFrom_done) (simp add: registerPreStartFunction_def newRegistry_def)
  finally have "preStart idleEnv ?r = Some startedRegistry"
    by (simp add: preStart_def startedRegistry_def registerPreStartFunction_def newRegistry_def)
  then show ?thesis
    by (simp add: startedRegistry_def registerPreStartFunction_def clear_def newRegistry_def)
qed

text \<open>
  C5, amended: after \<open>clear\<close> every declaration sequence, every resolver map, the
  remote-schema descriptors, the internal values and the data sources are empty, the
  cached executable schema is null, the flag \<open>hasProcessedPlugins\<close> is false, and the
  \<open>clear\<close> hook of every registered plugin that has one has been called, in
  registration order; the pre-start functions, the flag \<open>hasExecutedPreStart\<close> and the
  list of plugins are what they were.
\<close>

theorem clear_empties_stores_and_notifies:
  "remoteSchemas (clear r) = [] \<and>
   directiveDefinitions (clear r) = [] \<and> directiveResolvers (clear r) = [] \<and>
   typeDefinitions (clear r) = [] \<and> queryDefinitions (clear r) = [] \<and>
   mutationDefinitions (clear r) = [] \<and> subscriptionDefinitions (clear r) = [] \<and>
   typeResolvers (clear r) = [] \<and> queryResolvers (clear r) = [] \<and>
   mutationResolvers (clear r) = [] \<and> subscriptionResolvers (clear r) = [] \<and>
   extensionTypeDefinitions (clear r) = [] \<and> extensionQueryDefinitions (clear r) = [] \<and>
   extensionMutationDefinitions (clear r) = [] \<and>
   extensionSubscriptionDefinitions (clear r) = [] \<and>
   extensionTypeResolvers (clear r) = [] \<and> extensionQueryResolvers (clear r) = [] \<and>
   extensionMutationResolvers (clear r) = [] \<and>
   extensionSubscriptionResolvers (clear r) = [] \<and>
   internalValues (clear r) = [] \<and> dataSources (clear r) = [] \<and>
   executableSchema (clear r) = None \<and> \<not> hasProcessedPlugins (clear r) \<and>
   hookCalls (clear r) =
     hookCalls r @ map (\<lambda>plu. HookCall (name plu) Clear NoArgs) (filter clearHook (plugins r)) \<and>
   preStartFunctions (clear r) = preStartFunctions r \<and>
   hasExecutedPreStart (clear r) = hasExecutedPreStart r \<and>
   plugins (clear r) = plugins r"
  by (simp add: clear_def)

theorem clear_empties_stores_and_notifies_witness:
  "typeDefinitions (clear (fst (registerPlugin startedRegistry impostor))) = [] \<and>
   hookCalls (clear (fst (registerPlugin startedRegistry impostor))) =
     [HookCall ''counting'' Clear NoArgs] \<and>
   preStartFunctions (clear (fst (registerPlugin startedRegistry impostor))) = [0] \<and>
   hasExecutedPreStart (clear (fst (registerPlugin startedRegistry impostor)))"
  using clear_empties_stores_and_notifies [of "fst (registerPlugin startedRegistry impostor)"]
  by (simp add: startedRegistry_def registerPreStartFunction_def registerPlugin_def
      newRegistry_def impostor_def noHooks_def)

subsection \<open>Finalization\<close>

lemma processPlugins_frame:
  "plugins (snd (processPlugins r)) = plugins r \<and>
   hasExecutedPreStart (snd (processPlugins r)) = hasExecutedPreStart r \<and>
   executableSchema (snd (processPlugins r)) = executableSchema r \<and>
   remoteSchemas (snd (processPlugins r)) = remoteSchemas r \<and>
   preStartFunctions (snd (processPlugins r)) = preStartFunctions r"
proof (cases "hasProcessedPlugins r")
  case True
  then show ?thesis by (simp add: processPlugins_done)
next
  case False
  obtain out r1 where b: "pipelineBody r = (out, r1)" by (cases "pipelineBody r")
  have "advances (\<lambda>c. True) r r1" using advances_pipelineBody [of r] b by simp
  with False b show ?thesis
    by (cases out) (auto simp: processPlugins_body advances_def)
qed

lemma getSchema_inventory:
  "map_option fst (getSchema idleEnv inventoryRegistry) =
     Some (Resolved
       (StitchSchemas
          [MakeExecutableSchema [] None,
           WrapSchema (Foreign ''inventory'') ''http''
             [RenameTypes, RenameRootTypes, RenameRootFields, RenameObjectFields,
              RenameInterfaceFields, RenameInputObjectFields]]
          [] None))"
  by (simp add: inventoryRegistry_def registerRemoteSchema_def inventory_def newRegistry_def
      getSchema_def preStart_def preStartFrom_done run_simps obj_simps wrapRemote_def
      transformSchema_def Let_def)

text \<open>
  C6, as stated, fails: \<open>getSchema\<close> wraps every remote source that resolves and
  stitches it in. Here one remote schema is registered and nothing else.
\<close>

theorem getSchema_includes_remote_counterexample:
  "map_option fst (getSchema idleEnv inventoryRegistry) =
     Some (Resolved
       (StitchSchemas
          [MakeExecutableSchema [] None,
           WrapSchema (Foreign ''inventory'') ''http''
             [RenameTypes, RenameRootTypes, RenameRootFields, RenameObjectFields,
              RenameInterfaceFields, RenameInputObjectFields]]
          [] None))"
  by (rule getSchema_inventory)

text \<open>
  C6, amended: whenever \<open>getSchema\<close> resolves, its result is the stitching of the
  base declarations compiled with no resolver map, followed by the wrapped form of
  every remote source that resolves (in registration order), with the extension
  declarations document as type definitions and again no resolver map. The remote
  descriptors are those the registry holds once the setup hooks have run.
\<close>

theorem getSchema_attaches_no_resolvers:
  assumes "preStart env r = Some r0" and "getSchema env r = Some (Resolved s, r')"
  shows "s = StitchSchemas
               (MakeExecutableSchema (getDefinitionsDocument r') None
                  # wrappedSources (remoteSchemas r0))
               (getExtensionDefinitionsDocument r') None"
proof -
  obtain pout rp where pp: "processPlugins r0 = (pout, rp)" by (cases "processPlugins r0")
  obtain wout rw where w: "wrapRemoteSchemas (remoteSchemas rp) ([], rp) = (wout, rw)"
    by (cases "wrapRemoteSchemas (remoteSchemas rp) ([], rp)")
  from assms pp w obtain ws where
    res: "pout = Resolved ()" "wout = Resolved ws" "r' = rw"
      "s = StitchSchemas (MakeExecutableSchema (getDefinitionsDocument rp) None # ws)
             (getExtensionDefinitionsDocument rw) None"
    by (cases pout; cases wout) (auto simp: getSchema_def Let_def)
  have ws: "ws = wrappedSources (remoteSchemas rp)"
    using wrapRemoteSchemas_resolved [of "remoteSchemas rp" "([], rp)" ws rw] w res(2) by simp
  have rs: "remoteSchemas rp = remoteSchemas r0"
    using processPlugins_frame [of r0] pp by simp
  have "built rp rw"
    using onlyRemotes_wrapRemoteSchemas [of "([], rp)" "remoteSchemas rp"] w
    by (simp add: built_onlyRemotes)
  from built_fields(5) [OF this] res ws rs show ?thesis by simp
qed

lemma preStart_new:
  "preStartFunctions r = [] \<Longrightarrow> \<not> hasExecutedPreStart r \<Longrightarrow>
   preStart env r = Some (r\<lparr>hasExecutedPreStart := True\<rparr>)"
  by (simp add: preStart_def preStartFrom_done)

theorem getSchema_attaches_no_resolvers_witness:
  "preStart idleEnv inventoryRegistry = Some (inventoryRegistry\<lparr>hasExecutedPreStart := True\<rparr>) \<and>
   (\<exists>r'. getSchema idleEnv inventoryRegistry =
      Some (Resolved
        (StitchSchemas
          (MakeExecutableSchema (getDefinitionsDocument r') None
             # wrappedSources (remoteSchemas (inventoryRegistry\<lparr>hasExecutedPreStart := True\<rparr>)))
          (getExtensionDefinitionsDocument r') None), r'))"
proof -
  have p: "preStart idleEnv inventoryRegistry =
           Some (inventoryRegistry\<lparr>hasExecutedPreStart := True\<rparr>)"
    by (rule preStart_new)
       (simp_all add: inventoryRegistry_def registerRemoteSchema_def newRegistry_def obj_simps)
  obtain out r' where g: "getSchema idleEnv inventoryRegistry = Some (out, r')"
    using finalize_returns [OF p, of GetSchema] by auto
  have "map_option fst (getSchema idleEnv inventoryRegistry) \<noteq> Some (Rejected e)" for e
    by (simp add: getSchema_inventory)
  with g obtain s where "out = Resolved s" by (cases out) auto
  with g getSchema_attaches_no_resolvers [OF p, of s r'] p show ?thesis by simp
qed

lemma validation_rejects_pipeline:
  assumes "\<not> hasProcessedPlugins r" and "p \<in> set (plugins r)"
    and "validateSchema p = Some v"
    and "v (getDefinitionsDocument (runPluginPhases r))
           (getExtensionDefinitionsDocument (runPluginPhases r)) = Some message"
  shows "\<exists>e. processPlugins r = (Rejected e, snd (pipelineBody r))"
proof -
  have "plugins (runPluginPhases r) = plugins r"
    using advances_runPluginPhases [of r] by (simp add: advances_def)
  with assms(2) have "p \<in> set (plugins (runPluginPhases r))" by simp
  from validateAndFinish_rejects [OF this assms(3,4)]
  obtain e where "fst (pipelineBody r) = Rejected e"
    unfolding pipelineBody_def by blast
  then show ?thesis
    using assms(1) by (cases "pipelineBody r") (auto simp: processPlugins_body)
qed

lemma validateAndFinish_rejected_by:
  "fst (validateAndFinish s e ps r) = Rejected err \<Longrightarrow>
   \<exists>q\<in>set ps. \<exists>w m. validateSchema q = Some w \<and> w s e = Some m \<and> err = Raised m"
proof (induction ps arbitrary: r)
  case Nil
  then show ?case by simp
next
  case (Cons q ps)
  show ?case
  proof (cases "validateSchema q")
    case None
    with Cons.prems Cons.IH show ?thesis by (auto simp: callGlobal_def)
  next
    case (Some w)
    with Cons.prems Cons.IH show ?thesis
      by (cases "w s e") (auto simp: callGlobal_def)
  qed
qed

lemma validate_call_pipeline:
  assumes "\<not> hasProcessedPlugins r" and "p \<in> set (plugins r)" and "validateSchema p \<noteq> None"
  shows "\<exists>c\<in>set (newCalls r (snd (processPlugins r))). called c = ValidateSchema"
proof -
  let ?rp = "runPluginPhases r"
  have a1: "advances (\<lambda>c. True) r ?rp" by (rule advances_runPluginPhases)
  then have "plugins ?rp = plugins r" by (simp add: advances_def)
  with assms(2) have "p \<in> set (plugins ?rp)" by simp
  from validateAndFinish_calls [OF this assms(3)]
  obtain c where c: "c \<in> set (newCalls ?rp (snd (pipelineBody r)))" "called c = ValidateSchema"
    unfolding pipelineBody_def by blast
  have a2: "advances (\<lambda>c. True) ?rp (snd (pipelineBody r))"
    unfolding pipelineBody_def by (rule advances_validateAndFinish) simp
  have "newCalls r (snd (pipelineBody r)) =
        newCalls r ?rp @ newCalls ?rp (snd (pipelineBody r))"
    by (rule newCalls_trans [OF a1 a2])
  with c show ?thesis
    using assms(1) by (auto simp: newCalls_processPlugins)
qed

text \<open>
  C7: let the setup hooks leave the registry \<open>r0\<close>, with the pipeline not yet
  processed, and let the validation hook of some registered plugin raise on the
  documents that the pipeline hands to the validation hooks. Then
  \<open>getExecutableSchema\<close> rejects with what a validation hook raised, and in the
  registry it leaves the flag
  \<open>hasProcessedPlugins\<close> is still false and \<open>executableSchema\<close> is what it was before
  the call (unset, if it was unset); so the next \<open>processPlugins\<close> does not return at
  its guard but runs the pipeline again, calling a validation hook again.
\<close>

theorem validation_failure_caches_nothing:
  assumes "preStart env r = Some r0"
    and "\<not> hasProcessedPlugins r0"
    and "p \<in> set (plugins r0)"
    and "validateSchema p = Some v"
    and "v (getDefinitionsDocument (runPluginPhases r0))
           (getExtensionDefinitionsDocument (runPluginPhases r0)) = Some message"
  shows "\<exists>e r'. getExecutableSchema env r = Some (Rejected e, r') \<and>
           (\<exists>q\<in>set (plugins r0). \<exists>w m. validateSchema q = Some w \<and>
              w (getDefinitionsDocument (runPluginPhases r0))
                (getExtensionDefinitionsDocument (runPluginPhases r0)) = Some m \<and>
              e = Raised m) \<and>
           \<not> hasProcessedPlugins r' \<and>
           executableSchema r' = executableSchema r0 \<and>
           (\<exists>c\<in>set (newCalls r' (snd (processPlugins r'))). called c = ValidateSchema)"
proof -
  obtain e where pp: "processPlugins r0 = (Rejected e, snd (pipelineBody r0))"
    using validation_rejects_pipeline [OF assms(2-5)] by blast
  let ?r' = "snd (pipelineBody r0)"
  have "fst (pipelineBody r0) = Rejected e"
  proof (cases "pipelineBody r0")
    case (Pair out r1)
    with pp assms(2) show ?thesis
      by (cases out) (simp_all add: processPlugins_body)
  qed
  from validateAndFinish_rejected_by [OF this [unfolded pipelineBody_def]]
  have by_hook: "\<exists>q\<in>set (plugins r0). \<exists>w m. validateSchema q = Some w \<and>
      w (getDefinitionsDocument (runPluginPhases r0))
        (getExtensionDefinitionsDocument (runPluginPhases r0)) = Some m \<and> e = Raised m"
    using advances_runPluginPhases [of r0] by (simp add: advances_def)
  have g: "getExecutableSchema env r = Some (Rejected e, ?r')"
    using assms(1) pp by (simp add: getExecutableSchema_def)
  have f: "\<not> hasProcessedPlugins ?r'" "executableSchema ?r' = executableSchema r0"
    "plugins ?r' = plugins r0"
    using processPlugins_rejected [OF pp] by simp_all
  have "\<exists>c\<in>set (newCalls ?r' (snd (processPlugins ?r'))). called c = ValidateSchema"
    by (rule validate_call_pipeline [OF f(1), of p]) (simp_all add: f(3) assms(3,4))
  with g f by_hook show ?thesis by blast
qed

lemma strictRegistry_eq:
  "strictRegistry = newRegistry\<lparr>plugins := [strict\<lparr>registry := True\<rparr>]\<rparr>"
  by (simp add: strictRegistry_def registerPlugin_def newRegistry_def)

theorem validation_failure_caches_nothing_witness:
  "\<exists>r'. getExecutableSchema idleEnv strictRegistry = Some (Rejected (Raised ''invalid''), r') \<and>
     \<not> hasProcessedPlugins r' \<and> executableSchema r' = None \<and>
     (\<exists>c\<in>set (newCalls r' (snd (processPlugins r'))). called c = ValidateSchema)"
proof -
  let ?r0 = "strictRegistry\<lparr>hasExecutedPreStart := True\<rparr>"
  have 1: "preStart idleEnv strictRegistry = Some ?r0"
    by (rule preStart_new) (simp_all add: strictRegistry_eq newRegistry_def)
  have 2: "\<not> hasProcessedPlugins ?r0" by (simp add: strictRegistry_eq newRegistry_def)
  have 3: "strict\<lparr>registry := True\<rparr> \<in> set (plugins ?r0)" by (simp add: strictRegistry_eq)
  have 4: "validateSchema (strict\<lparr>registry := True\<rparr>) = Some (\<lambda>schema extensions. Some ''invalid'')"
    by (simp add: strict_def)
  have 5: "(\<lambda>schema extensions. Some ''invalid'')
             (getDefinitionsDocument (runPluginPhases ?r0))
             (getExtensionDefinitionsDocument (runPluginPhases ?r0)) = Some ''invalid''"
    by simp
  have "executableSchema ?r0 = None" by (simp add: strictRegistry_eq newRegistry_def)
  from validation_failure_caches_nothing [OF 1 2 3 4 5] obtain e r' where
    g: "getExecutableSchema idleEnv strictRegistry = Some (Rejected e, r')"
    and q: "\<exists>q\<in>set (plugins ?r0). \<exists>w m. validateSchema q = Some w \<and>
              w (getDefinitionsDocument (runPluginPhases ?r0))
                (getExtensionDefinitionsDocument (runPluginPhases ?r0)) = Some m \<and>
              e = Raised m"
    and rest: "\<not> hasProcessedPlugins r'" "executableSchema r' = executableSchema ?r0"
      "\<exists>c\<in>set (newCalls r' (snd (processPlugins r'))). called c = ValidateSchema"
    by blast
  have "plugins ?r0 = [strict\<lparr>registry := True\<rparr>]" by (simp add: strictRegistry_eq)
  with q 4 have "e = Raised ''invalid''" by auto
  with g rest \<open>executableSchema ?r0 = None\<close> show ?thesis by simp
qed

lemma find_name_Some:
  "q \<in> set ps \<Longrightarrow> name q = n \<Longrightarrow> List.find (\<lambda>registeredPlugin. name registeredPlugin = n) ps \<noteq> None"
  by (auto simp: find_None_iff)

lemma registerPlugin_known:
  assumes "q \<in> set (plugins r)" and "name q = name p"
  shows "registerPlugin r p = (r, p)"
  using find_name_Some [OF assms] by (auto simp: registerPlugin_def)

lemma registerPlugin_registers: "\<exists>q\<in>set (plugins (fst (registerPlugin r p))). name q = name p"
proof (cases "List.find (\<lambda>registeredPlugin. name registeredPlugin = name p) (plugins r)")
  case None
  then show ?thesis by (simp add: registerPlugin_def)
next
  case (Some q)
  then have "q \<in> set (plugins r) \<and> name q = name p"
    by (auto simp: find_Some_iff)
  with Some show ?thesis by (auto simp: registerPlugin_def)
qed

text \<open>
  C8: once a plugin \<open>p1\<close> has been offered to \<open>registerPlugin\<close>, registering a plugin
  \<open>p2\<close> of the same name changes neither the registry (so \<open>p2\<close> is not in the list of
  plugins) nor \<open>p2\<close> (so its back-reference is not set); the pipeline and every
  finalize operation then run exactly as they do without the second registration, for
  whatever hooks \<open>p2\<close> has, so none of them is called. When no plugin of that name was
  registered before, the first registration appends \<open>p1\<close> with its back-reference set.
\<close>

theorem second_plugin_of_a_name_is_ignored:
  assumes "name p2 = name p1"
  shows "registerPlugin (fst (registerPlugin r p1)) p2 = (fst (registerPlugin r p1), p2) \<and>
         plugins (fst (registerPlugin (fst (registerPlugin r p1)) p2)) =
           plugins (fst (registerPlugin r p1)) \<and>
         registry (snd (registerPlugin (fst (registerPlugin r p1)) p2)) = registry p2 \<and>
         processPlugins (fst (registerPlugin (fst (registerPlugin r p1)) p2)) =
           processPlugins (fst (registerPlugin r p1)) \<and>
         finalize env op (fst (registerPlugin (fst (registerPlugin r p1)) p2)) =
           finalize env op (fst (registerPlugin r p1)) \<and>
         (list_all (\<lambda>q. name q \<noteq> name p1) (plugins r) \<longrightarrow>
            plugins (fst (registerPlugin r p1)) = plugins r @ [p1\<lparr>registry := True\<rparr>])"
proof -
  obtain q where "q \<in> set (plugins (fst (registerPlugin r p1)))" "name q = name p2"
    using registerPlugin_registers [of r p1] assms by auto
  then have "registerPlugin (fst (registerPlugin r p1)) p2 = (fst (registerPlugin r p1), p2)"
    by (rule registerPlugin_known)
  moreover have "plugins (fst (registerPlugin r p1)) = plugins r @ [p1\<lparr>registry := True\<rparr>]"
    if "list_all (\<lambda>q. name q \<noteq> name p1) (plugins r)"
  proof -
    have "List.find (\<lambda>registeredPlugin. name registeredPlugin = name p1) (plugins r) = None"
      using that by (simp add: find_None_iff list_all_iff)
    then show ?thesis by (simp add: registerPlugin_def)
  qed
  ultimately show ?thesis by simp
qed

theorem second_plugin_of_a_name_is_ignored_witness:
  "name impostor = name counting \<and>
   registerPlugin (fst (registerPlugin newRegistry counting)) impostor =
     (fst (registerPlugin newRegistry counting), impostor) \<and>
   map name (plugins (fst (registerPlugin (fst (registerPlugin newRegistry counting)) impostor)))
     = [''counting''] \<and>
   \<not> registry (snd (registerPlugin (fst (registerPlugin newRegistry counting)) impostor)) \<and>
   hookCalls (snd (processPlugins
     (fst (registerPlugin (fst (registerPlugin newRegistry counting)) impostor)))) =
     [HookCall ''counting'' AddTypeDefinitions (Docs [] [])]"
proof -
  have n: "name impostor = name counting"
    by (simp add: impostor_def counting_def noHooks_def)
  have l: "list_all (\<lambda>q. name q \<noteq> name counting) (plugins newRegistry)"
    by (simp add: newRegistry_def)
  have c: "fst (registerPlugin newRegistry counting) = countingRegistry"
    by (simp add: countingRegistry_def)
  from second_plugin_of_a_name_is_ignored [OF n, of newRegistry] l n show ?thesis
    unfolding c by (simp add: counting_run newRegistry_def counting_def impostor_def noHooks_def)
qed

lemma length_filter_distinct:
  "distinct xs \<Longrightarrow> length (filter (\<lambda>x. x = n) xs) \<le> Suc 0"
  by (induction xs) (auto simp: filter_empty_conv)

lemma typeAdd_at_most_once:
  assumes "distinct (map name ps)"
  shows "length (filter (\<lambda>c. callee c = n) (typeAddCalls r ps)) \<le> Suc 0"
proof -
  have "distinct (map name (filter (\<lambda>p. addTypeDefinitions p \<noteq> None) ps))"
    using assms by (rule distinct_map_filter)
  then have "distinct (map callee (typeAddCalls r ps))"
    by (simp add: map_callee_typeAddCalls)
  from length_filter_distinct [OF this, of n] show ?thesis
    by (simp add: filter_map comp_def)
qed

lemma faultyRegistry_eq:
  "faultyRegistry = newRegistry\<lparr>plugins := [faulty\<lparr>registry := True\<rparr>]\<rparr>"
  by (simp add: faultyRegistry_def registerPlugin_def newRegistry_def)

lemma faulty_run:
  "processPlugins (faultyRegistry\<lparr>hasExecutedPreStart := True, hookCalls := cs\<rparr>) =
     (Rejected (Raised ''invalid''),
      faultyRegistry
        \<lparr> hasExecutedPreStart := True,
          hookCalls := cs @ [HookCall ''faulty'' AddTypeDefinitions (Docs [] []),
                             HookCall ''faulty'' ValidateSchema (Docs [] [])] \<rparr>)"
  by (simp add: faultyRegistry_eq newRegistry_def faulty_def noHooks_fields run_simps
      mergeIncomingTypes_def)

lemma faulty_first_call:
  "getExecutableSchema idleEnv faultyRegistry =
     Some (Rejected (Raised ''invalid''),
           faultyRegistry
             \<lparr> hasExecutedPreStart := True,
               hookCalls := [HookCall ''faulty'' AddTypeDefinitions (Docs [] []),
                             HookCall ''faulty'' ValidateSchema (Docs [] [])] \<rparr>)"
proof -
  have p: "preStart idleEnv faultyRegistry =
           Some (faultyRegistry\<lparr>hasExecutedPreStart := True, hookCalls := []\<rparr>)"
    by (simp add: preStart_def preStartFrom_done faultyRegistry_eq newRegistry_def)
  show ?thesis
    by (simp add: getExecutableSchema_def p faulty_run)
qed

lemma faulty_next_call:
  "getExecutableSchema idleEnv (faultyRegistry\<lparr>hasExecutedPreStart := True, hookCalls := cs\<rparr>) =
     Some (Rejected (Raised ''invalid''),
           faultyRegistry
             \<lparr> hasExecutedPreStart := True,
               hookCalls := cs @ [HookCall ''faulty'' AddTypeDefinitions (Docs [] []),
                                  HookCall ''faulty'' ValidateSchema (Docs [] [])] \<rparr>)"
  by (simp add: getExecutableSchema_def preStart_def faulty_run)

text \<open>
  C1, as stated, fails: the pipeline body can run more than once in the lifetime of a
  registry, and a hook of the body can be called more than once across a sequence of
  finalize operations, with no \<open>clear\<close> in between. The one-shot flag is set only at
  the end of a run that no validation hook ends. Here the one registered plugin has a
  global type-add hook and a validation hook that raises: two calls of
  \<open>getExecutableSchema\<close> run the body twice, and the type-add hook is called twice.
\<close>

theorem body_runs_again_after_rejection_counterexample:
  "map_option hookCalls
     (finalizeAll idleEnv [GetExecutableSchema, GetExecutableSchema] faultyRegistry) =
   Some [HookCall ''faulty'' AddTypeDefinitions (Docs [] []),
         HookCall ''faulty'' ValidateSchema (Docs [] []),
         HookCall ''faulty'' AddTypeDefinitions (Docs [] []),
         HookCall ''faulty'' ValidateSchema (Docs [] [])]"
  by (simp add: faulty_first_call faulty_next_call)

text \<open>
  C1, amended: the pipeline body is not run again after a run that completed. A finalize
  operation that resolves leaves both one-shot flags set. From a registry with both flags
  set, \<open>processPlugins\<close> returns at its guard without touching the registry, and any
  sequence of further finalize operations returns and leaves the history of hook calls
  exactly as it was, so no plugin hook is called again; only \<open>clear\<close> resets the flag.
  Within one run of the pipeline body the global type-add hook of a plugin is called at
  most once, plugin names being unique. Hence, when the first finalize operation of a
  sequence resolves, the whole sequence returns and has called the global type-add hook
  of each plugin at most once since the pre-start functions ran. (A run that a validation
  hook ends sets no flag and is not a completed run: the next finalize operation runs the
  body again.)
\<close>

theorem pipeline_runs_once:
  "(finalize env op r = Some (Resolved s, r1) \<longrightarrow>
      hasProcessedPlugins r1 \<and> hasExecutedPreStart r1) \<and>
   (hasProcessedPlugins r1 \<and> hasExecutedPreStart r1 \<longrightarrow>
      processPlugins r1 = (Resolved (), r1) \<and>
      (\<exists>r2. finalizeAll env ops r1 = Some r2 \<and> hookCalls r2 = hookCalls r1 \<and>
            hasProcessedPlugins r2 \<and> hasExecutedPreStart r2) \<and>
      \<not> hasProcessedPlugins (clear r1)) \<and>
   (distinct (map name (plugins r0)) \<longrightarrow>
      length (filter (\<lambda>c. callee c = n \<and> called c = AddTypeDefinitions)
                (newCalls r0 (snd (processPlugins r0)))) \<le> 1) \<and>
   (preStart env r = Some rs \<and> distinct (map name (plugins rs)) \<and>
    finalize env op r = Some (Resolved s, r1) \<longrightarrow>
      (\<exists>r2. finalizeAll env (op # ops) r = Some r2 \<and>
            length (filter (\<lambda>c. callee c = n \<and> called c = AddTypeDefinitions)
                      (newCalls rs r2)) \<le> 1))"
proof -
  have once: "length (filter (\<lambda>c. callee c = n \<and> called c = AddTypeDefinitions)
                        (newCalls q (snd (processPlugins q)))) \<le> 1"
    if d: "distinct (map name (plugins q))" for q
  proof -
    let ?new = "newCalls q (snd (processPlugins q))"
    have eq: "filter (\<lambda>c. callee c = n \<and> called c = AddTypeDefinitions) ?new =
              filter (\<lambda>c. callee c = n) (filter isTypeAdd ?new)"
      by (simp add: isTypeAdd_def conj_commute)
    show ?thesis
    proof (cases "hasProcessedPlugins q")
      case True
      then show ?thesis by (simp add: processPlugins_done newCalls_def)
    next
      case False
      show ?thesis
        unfolding eq typeAdd_processPlugins [OF False]
        using typeAdd_at_most_once [OF d, of n "beforeMainPhase q"] by simp
    qed
  qed
  have flags: "hasProcessedPlugins r1 \<and> hasExecutedPreStart r1"
    if f: "finalize env op r = Some (Resolved s, r1)"
  proof -
    from finalize_cases [OF f] obtain q rp where
      p: "preStart env r = Some q" and pp: "processPlugins q = (Resolved (), rp)"
      and b: "built rp r1" by auto
    have "hasProcessedPlugins rp \<and> hasExecutedPreStart rp"
      using processPlugins_resolved [OF pp] preStart_sets_flag [OF p] by simp
    then show ?thesis using built_fields [OF b] by simp
  qed
  have settled: "\<exists>r2. finalizeAll env ops r1 = Some r2 \<and> hookCalls r2 = hookCalls r1 \<and>
            hasProcessedPlugins r2 \<and> hasExecutedPreStart r2"
    if a: "hasProcessedPlugins r1 \<and> hasExecutedPreStart r1"
  proof -
    from a finalizeAll_settled [of r1 env ops] obtain r2 where
      "finalizeAll env ops r1 = Some r2" and "built r1 r2" by blast
    with a built_fields [of r1 r2] show ?thesis by simp
  qed
  have sequence: "\<exists>r2. finalizeAll env (op # ops) r = Some r2 \<and>
            length (filter (\<lambda>c. callee c = n \<and> called c = AddTypeDefinitions)
                      (newCalls rs r2)) \<le> 1"
    if p: "preStart env r = Some rs" and d: "distinct (map name (plugins rs))"
      and f: "finalize env op r = Some (Resolved s, r1)"
  proof -
    from finalize_cases [OF f] p obtain rp where
      pp: "processPlugins rs = (Resolved (), rp)" and b: "built rp r1" by auto
    from settled [OF flags [OF f]] obtain r2 where
      all: "finalizeAll env ops r1 = Some r2" and h: "hookCalls r2 = hookCalls r1" by blast
    have "hookCalls r2 = hookCalls (snd (processPlugins rs))"
      using h built_fields(1) [OF b] pp by simp
    then have "newCalls rs r2 = newCalls rs (snd (processPlugins rs))"
      by (simp add: newCalls_def)
    with once [OF d] all f show ?thesis by simp
  qed
  show ?thesis
  proof (intro conjI impI)
    assume "finalize env op r = Some (Resolved s, r1)"
    from flags [OF this] show "hasProcessedPlugins r1" "hasExecutedPreStart r1" by simp_all
  next
    assume a: "hasProcessedPlugins r1 \<and> hasExecutedPreStart r1"
    then show "processPlugins r1 = (Resolved (), r1)" by (simp add: processPlugins_done)
    from settled [OF a]
    show "\<exists>r2. finalizeAll env ops r1 = Some r2 \<and> hookCalls r2 = hookCalls r1 \<and>
            hasProcessedPlugins r2 \<and> hasExecutedPreStart r2" .
    show "\<not> hasProcessedPlugins (clear r1)" by (simp add: clear_def)
  next
    assume "distinct (map name (plugins r0))"
    from once [OF this]
    show "length (filter (\<lambda>c. callee c = n \<and> called c = AddTypeDefinitions)
                    (newCalls r0 (snd (processPlugins r0)))) \<le> 1" .
  next
    assume "preStart env r = Some rs \<and> distinct (map name (plugins rs)) \<and>
            finalize env op r = Some (Resolved s, r1)"
    then show "\<exists>r2. finalizeAll env (op # ops) r = Some r2 \<and>
            length (filter (\<lambda>c. callee c = n \<and> called c = AddTypeDefinitions)
                      (newCalls rs r2)) \<le> 1"
      using sequence by blast
  qed
qed

lemma counting_first_call:
  "getExecutableSchema idleEnv countingRegistry = Some (Resolved countingSchema, countingDone)"
proof -
  let ?r0 = "countingRegistry\<lparr>hasExecutedPreStart := True\<rparr>"
  have p: "preStart idleEnv countingRegistry = Some ?r0"
    by (rule preStart_new) (simp_all add: countingRegistry_eq newRegistry_def)
  have pp: "processPlugins ?r0 =
      (Resolved (), ?r0\<lparr>hookCalls := [HookCall ''counting'' AddTypeDefinitions (Docs [] [])],
                          hasProcessedPlugins := True\<rparr>)"
    by (simp add: countingRegistry_eq newRegistry_def counting_def noHooks_fields run_simps
        mergeIncomingTypes_def)
  have "getExecutableSchema idleEnv countingRegistry =
        (case processPlugins ?r0 of
           (Rejected e, r) \<Rightarrow> Some (Rejected e, r)
         | (Resolved u, r) \<Rightarrow>
             (case executableSchema r of
                Some cached \<Rightarrow> Some (Resolved cached, r)
              | None \<Rightarrow>
                  (let localSchema =
                         MakeExecutableSchema (getDefinitionsDocument r) (Some (getResolvers r))
                   in case wrapRemoteSchemas (remoteSchemas r) ([], r) of
                        (Rejected e, r) \<Rightarrow> Some (Rejected e, r)
                      | (Resolved wrapped, r) \<Rightarrow>
                          (let gatewaySchema =
                                 applyDirectiveResolvers r
                                   (StitchSchemas (localSchema # wrapped)
                                      (getExtensionDefinitionsDocument r)
                                      (Some (getExtensionResolvers r)))
                           in Some (Resolved gatewaySchema,
                                    r\<lparr>executableSchema := Some gatewaySchema\<rparr>)))))"
    by (simp add: getExecutableSchema_def p)
  also have "\<dots> = Some (Resolved countingSchema, countingDone)"
    unfolding pp
    by (simp add: countingRegistry_eq newRegistry_def countingDone_def countingSchema_def
        getDefinitionsDocument_eq getExtensionDefinitionsDocument_eq getResolvers_def
        getExtensionResolvers_def applyDirectiveResolvers_def obj_simps Let_def)
  finally show ?thesis .
qed

theorem pipeline_runs_once_witness:
  "finalize idleEnv GetExecutableSchema countingRegistry =
     Some (Resolved countingSchema, countingDone) \<and>
   processPlugins countingDone = (Resolved (), countingDone) \<and>
   (\<exists>r2. finalizeAll idleEnv [GetExecutableSchema, GetSchema, GetFederatableSchema] countingDone
           = Some r2 \<and>
         hookCalls r2 = [HookCall ''counting'' AddTypeDefinitions (Docs [] [])]) \<and>
   length (filter (\<lambda>c. callee c = ''counting'' \<and> called c = AddTypeDefinitions)
             (newCalls countingRegistry (snd (processPlugins countingRegistry)))) \<le> 1 \<and>
   preStart idleEnv countingRegistry = Some (countingRegistry\<lparr>hasExecutedPreStart := True\<rparr>) \<and>
   (\<exists>r2. finalizeAll idleEnv
           [GetExecutableSchema, GetExecutableSchema, GetSchema, GetFederatableSchema]
           countingRegistry = Some r2 \<and>
         length (filter (\<lambda>c. callee c = ''counting'' \<and> called c = AddTypeDefinitions)
                   (newCalls (countingRegistry\<lparr>hasExecutedPreStart := True\<rparr>) r2)) \<le> 1)"
proof -
  let ?rs = "countingRegistry\<lparr>hasExecutedPreStart := True\<rparr>"
  have f: "finalize idleEnv GetExecutableSchema countingRegistry =
           Some (Resolved countingSchema, countingDone)"
    by (simp add: counting_first_call)
  have d: "distinct (map name (plugins countingRegistry))"
    by (simp add: countingRegistry_eq)
  have h: "hookCalls countingDone = [HookCall ''counting'' AddTypeDefinitions (Docs [] [])]"
    by (simp add: countingDone_def)
  have p: "preStart idleEnv countingRegistry = Some ?rs"
    by (rule preStart_new) (simp_all add: countingRegistry_eq newRegistry_def)
  have ds: "distinct (map name (plugins ?rs))"
    by (simp add: countingRegistry_eq)
  from pipeline_runs_once
    [of idleEnv GetExecutableSchema countingRegistry countingSchema countingDone
        "[GetExecutableSchema, GetSchema, GetFederatableSchema]" countingRegistry "''counting''"
        ?rs]
    f d h p ds
  show ?thesis by (auto simp del: finalizeAll.simps)
qed








theorem reregistration_moves_to_tail_witness:
  "typeDefinitions
     (registerType (registerType (registerType newRegistry (typesOnly [bookV1]))
        (typesOnly [authorV1])) (typesOnly [bookV2])) = [authorV1, bookV2] \<and>
   typeDefinitions
     (registerType (registerType (registerType newRegistry (typesOnly [bookV1]))
        (typesOnly [bookV2])) (typesOnly [authorV1])) = [bookV2, authorV1]"
proof -
  have 1: "distinct (map nameValue (typeDefinitions newRegistry))"
    by (simp add: newRegistry_def)
  have 2: "isTypeDefinitionNode bookV1" "isTypeDefinitionNode bookV2"
    "isTypeDefinitionNode authorV1"
    by (simp_all add: bookV1_def bookV2_def authorV1_def isTypeDefinitionNode_def
        typeDefinitionTypes_def)
  have 3: "nameValue bookV2 = nameValue bookV1" "nameValue authorV1 \<noteq> nameValue bookV1"
    by (simp_all add: bookV1_def bookV2_def authorV1_def)
  from reregistration_moves_to_tail [OF 1 2 3] show ?thesis
    by (simp add: newRegistry_def)
qed

lemma bookRegistry_fields:
  "queryDefinitions bookRegistry = [oneBook]" "mutationDefinitions bookRegistry = []"
  "subscriptionDefinitions bookRegistry = []" "extensionQueryDefinitions bookRegistry = []"
  by (simp_all add: bookRegistry_def bookArgs_def registerType_def newRegistry_def
      documentDefinitions_def mergeIncoming_eqs assignAll_def oneBook_def authorV1_def
      bookV2_def upsert_def)

theorem container_only_for_nonempty_fields_witness:
  "Node OBJECT_TYPE_DEFINITION ''Query'' [oneBook] [] \<in> set (synthesized bookRegistry) \<and>
   Node OBJECT_TYPE_DEFINITION ''Mutation'' [oneBook] [] \<notin> set (synthesized bookRegistry) \<and>
   Node OBJECT_TYPE_EXTENSION ''Query'' [oneBook] [] \<notin> set (synthesizedExtensions bookRegistry)"
  using container_only_for_nonempty_fields [of bookRegistry "[oneBook]"]
  by (simp add: bookRegistry_fields)


end
